theory Spec2Isabelle
  imports Complex_Main
begin

section \<open>Positions, ranges and edit operations\<close>

text \<open>
  The notebook cell chat controller (cellChatController.ts) works on the editor's
  positions, ranges and edit operations. Their classes belong to the editor core
  (vs/editor/common/core); only the members the controller calls are modelled.
\<close>

record position =
  lineNumber :: int
  column :: int

text \<open>
  Modelled from the spec: \<^verbatim>\<open>Position.isBefore\<close> (vs/editor/common/core/position) is not
  under src/. The spec orders end positions by their place in the document ("greatest
  end offset"): line first, then column; \<open>isBefore\<close> is the strict part of that order,
  so a position is not before itself.
\<close>

definition isBefore :: "position \<Rightarrow> position \<Rightarrow> bool" where
  "isBefore a b =
     (if lineNumber a < lineNumber b then True
      else if lineNumber b < lineNumber a then False
      else column a < column b)"

record irange =
  startLineNumber :: int
  startColumn :: int
  endLineNumber :: int
  endColumn :: int

text \<open>
  Modelled from the spec: \<^verbatim>\<open>Range.getEndPosition\<close> and \<^verbatim>\<open>Selection.fromPositions\<close>
  (vs/editor/common/core) are not under src/. The end position of a range is its end
  line and end column; a selection made from one position starts and ends there.
\<close>

definition getEndPosition :: "irange \<Rightarrow> position" where
  "getEndPosition r = \<lparr>lineNumber = endLineNumber r, column = endColumn r\<rparr>"

record selection =
  selectionStartLineNumber :: int
  selectionStartColumn :: int
  positionLineNumber :: int
  positionColumn :: int

definition fromPositions :: "position \<Rightarrow> selection" where
  "fromPositions p =
     \<lparr>selectionStartLineNumber = lineNumber p, selectionStartColumn = column p,
      positionLineNumber = lineNumber p, positionColumn = column p\<rparr>"

text \<open>\<^verbatim>\<open>TextEdit\<close>: what the provider sends, a range and its replacement text.\<close>

record textEdit =
  editRange :: irange
  editText :: string

text \<open>\<^verbatim>\<open>ISingleEditOperation\<close>: the text may be null.\<close>

record singleEditOperation =
  opRange :: irange
  opText :: "string option"

text \<open>
  Modelled from the spec: \<^verbatim>\<open>TextEdit.asEditOperation\<close> (vs/editor/common/languages) is
  not under src/; an edit batch is "range + replacement text", which the operation keeps.
\<close>

definition asEditOperation :: "textEdit \<Rightarrow> singleEditOperation" where
  "asEditOperation e = \<lparr>opRange = editRange e, opText = Some (editText e)\<rparr>"

text \<open>\<^verbatim>\<open>IValidEditOperation\<close>: the inverse edits the editor hands to a cursor state computer.\<close>

record validEditOperation =
  undoRange :: irange
  undoText :: string

section \<open>Numbers\<close>

text \<open>
  A JavaScript number: a finite double, given by its exact value (\<open>Finite 0\<close> is +0),
  the negative zero, an infinity or NaN.
\<close>

datatype number = Finite rat | NegZero | PosInfinity | NegInfinity | NaN

text \<open>The number of binary digits of a positive integer.\<close>

function bitLength :: "int \<Rightarrow> int" where
  "bitLength n = (if n \<le> 0 then 0 else 1 + bitLength (n div 2))"
  by pat_completeness auto
termination
  by (relation "measure nat") auto

definition pow2 :: "int \<Rightarrow> rat" where
  "pow2 k = (if 0 \<le> k then 2 ^ nat k else 1 / 2 ^ nat (- k))"

text \<open>For a positive \<open>x\<close>, the exponent \<open>e\<close> with \<open>2 ^ e \<le> x < 2 ^ (e + 1)\<close>.\<close>

definition exponentOf :: "rat \<Rightarrow> int" where
  "exponentOf x =
     (if 1 \<le> x then bitLength \<lfloor>x\<rfloor> - 1
      else (let k = bitLength \<lfloor>1 / x\<rfloor> - 1 in if pow2 (- k) \<le> x then - k else - k - 1))"

definition roundHalfEven :: "rat \<Rightarrow> int" where
  "roundHalfEven q =
     (let f = \<lfloor>q\<rfloor>; r = q - of_int f
      in if r < 1 / 2 then f else if 1 / 2 < r then f + 1 else if even f then f else f + 1)"

text \<open>
  A positive value rounded to the nearest double, ties to the even significand:
  53 significant bits, exponents from -1022 (below, the spacing of the subnormal
  numbers stays) to 1023 (above, the result overflows: \<open>None\<close>).
\<close>

definition roundMagnitude :: "rat \<Rightarrow> rat option" where
  "roundMagnitude x =
     (let e0 = exponentOf x
      in if 1024 \<le> e0 then None
         else
           (let e = max e0 (- 1022);
                ulp = pow2 (e - 52);
                n = roundHalfEven (x / ulp)
            in if e = 1023 \<and> n = 2 ^ 53 then None else Some (of_int n * ulp)))"

definition roundToDouble :: "rat \<Rightarrow> number" where
  "roundToDouble x =
     (if x = 0 then Finite 0
      else if 0 < x
        then (case roundMagnitude x of None \<Rightarrow> PosInfinity | Some v \<Rightarrow> Finite v)
        else (case roundMagnitude (- x) of
                None \<Rightarrow> NegInfinity
              | Some v \<Rightarrow> if v = 0 then NegZero else Finite (- v)))"

definition isNegative :: "number \<Rightarrow> bool" where
  "isNegative a =
     (case a of Finite r \<Rightarrow> r < 0 | NegZero \<Rightarrow> True | NegInfinity \<Rightarrow> True | _ \<Rightarrow> False)"

definition isInfinite :: "number \<Rightarrow> bool" where
  "isInfinite a = (a = PosInfinity \<or> a = NegInfinity)"

definition isZero :: "number \<Rightarrow> bool" where
  "isZero a = (a = Finite 0 \<or> a = NegZero)"

definition valueOf :: "number \<Rightarrow> rat" where
  "valueOf a = (case a of Finite r \<Rightarrow> r | _ \<Rightarrow> 0)"

text \<open>
  The operator \<^verbatim>\<open>/\<close> of JavaScript on numbers: the division of IEEE 754 doubles. NaN
  gives NaN, as do infinity by infinity and zero by zero; the sign of any other result
  is negative when exactly one operand is; a division by zero or of an infinity gives
  an infinity, a division by an infinity or of zero a zero; and the quotient of
  finite numbers is rounded to the nearest double.
\<close>

definition jsDivide :: "number \<Rightarrow> number \<Rightarrow> number" where
  "jsDivide a b =
     (let negative = (isNegative a \<noteq> isNegative b)
      in if a = NaN \<or> b = NaN then NaN
         else if isInfinite a
           then (if isInfinite b then NaN
                 else if negative then NegInfinity else PosInfinity)
         else if isInfinite b then (if negative then NegZero else Finite 0)
         else if isZero b
           then (if isZero a then NaN
                 else if negative then NegInfinity else PosInfinity)
         else if isZero a then (if negative then NegZero else Finite 0)
         else roundToDouble (valueOf a / valueOf b))"

section \<open>Calls on the collaborators\<close>

datatype cancellationToken = CancellationToken (isCancellationRequested: bool)

datatype saveReason = EXPLICIT | AUTO | FOCUS_CHANGE | WINDOW_CHANGE

text \<open>
  The editor, the widget, the context key, the session's tracked range and the untitled
  model are collaborators: the model records the calls made on them, oldest first.
\<close>

datatype call =
    PushUndoStop
  | ExecuteEdits string "singleEditOperation list" "validEditOperation list \<Rightarrow> selection list option"
  | PerformAsyncTextEdit singleEditOperation number cancellationToken
  | Save saveReason
  | TrackEdits "singleEditOperation list"
  | AddInput string
  | CtxHasActiveRequestSet bool
  | UpdateProgress bool
  | UpdateInfo string
  | UpdateToolbar bool

section \<open>The session\<close>

text \<open>
  Modelled from the spec: the text model (\<^verbatim>\<open>ITextModel\<close>) is not under src/. The spec's
  document store reads a version marker and disposed flag and offers undo; the glossary
  has the alternative version id identify a content state that undo returns to. The
  model is a document with the stack of states that successive undos restore.
\<close>

record textModel =
  disposed :: bool
  content :: string
  alternativeVersionId :: int
  undoStack :: "(string \<times> int) list"

definition isDisposed :: "textModel \<Rightarrow> bool" where
  "isDisposed m = disposed m"

definition getAlternativeVersionId :: "textModel \<Rightarrow> int" where
  "getAlternativeVersionId m = alternativeVersionId m"

definition canUndo :: "textModel \<Rightarrow> bool" where
  "canUndo m = (undoStack m \<noteq> [])"

definition undo :: "textModel \<Rightarrow> textModel" where
  "undo m =
     (case undoStack m of
        [] \<Rightarrow> m
      | (c, v) # rest \<Rightarrow> m\<lparr>content := c, alternativeVersionId := v, undoStack := rest\<rparr>)"

record untitledTextModel =
  untitledDisposed :: bool
  untitledDirty :: bool

text \<open>The responses of an exchange; only a \<^verbatim>\<open>ReplyResponse\<close> has an untitled text model.\<close>

datatype response =
    EmptyResponse
  | ErrorResponse string
  | ReplyResponse "untitledTextModel option"

record sessionExchange =
  prompt :: string
  response :: response

record session =
  textModelN :: textModel
  textModelNAltVersion :: int
  textModelNSnapshotAltVersion :: "int option"
  lastExchange :: "sessionExchange option"

section \<open>EditStrategy\<close>

record editStrategy =
  editCount :: nat
  strategySession :: session

text \<open>
  \<^verbatim>\<open>new EditStrategy(session)\<close>: the counter starts at 0. It is only ever incremented
  by one, so the JavaScript number is a natural number here.
\<close>

definition newEditStrategy :: "session \<Rightarrow> editStrategy" where
  "newEditStrategy s = \<lparr>editCount = 0, strategySession = s\<rparr>"

record progressingEditsOptions =
  duration :: rat
  token :: cancellationToken

text \<open>
  Both \<^verbatim>\<open>makeProgressiveChanges\<close> and \<^verbatim>\<open>makeChanges\<close> hold the lines
  \<^verbatim>\<open>if (++this._editCount === 1) { editor.pushUndoStop(); }\<close>.
  Each operation returns the strategy and the calls it made, in order.
\<close>

definition pushUndoStopBeforeFirstEdit :: "editStrategy \<Rightarrow> editStrategy \<times> call list" where
  "pushUndoStopBeforeFirstEdit this =
     (let this' = this\<lparr>editCount := editCount this + 1\<rparr>
      in (this', if editCount this' = 1 then [PushUndoStop] else []))"

text \<open>
  One turn of the loop of \<^verbatim>\<open>makeProgressiveChanges\<close>. \<open>countWords\<close>
  (vs/workbench/contrib/chat/common/chatWordCounter) is a parameter; a count of words
  is a whole number that a double holds exactly. The duration is the value of a double.
\<close>

definition progressiveEdit ::
  "(string \<Rightarrow> nat) \<Rightarrow> progressingEditsOptions \<Rightarrow> singleEditOperation \<Rightarrow> call" where
  "progressiveEdit countWords opts edit =
     (let durationInSec = jsDivide (Finite (duration opts)) (Finite 1000);
          wordCount = countWords (case opText edit of None \<Rightarrow> [] | Some t \<Rightarrow> t);
          speed = jsDivide (Finite (of_nat wordCount)) durationInSec
      in PerformAsyncTextEdit edit speed (token opts))"

definition makeProgressiveChanges ::
  "(string \<Rightarrow> nat) \<Rightarrow> editStrategy \<Rightarrow> singleEditOperation list \<Rightarrow> progressingEditsOptions
     \<Rightarrow> editStrategy \<times> call list" where
  "makeProgressiveChanges countWords this edits opts =
     (let (this', stop) = pushUndoStopBeforeFirstEdit this
      in (this', stop @ map (progressiveEdit countWords opts) edits))"

text \<open>
  The cursor state computer of \<^verbatim>\<open>makeChanges\<close>. \<open>replacesLast\<close> is the condition
  \<^verbatim>\<open>!last || last.isBefore(edit.range.getEndPosition())\<close> of its loop.
\<close>

definition replacesLast :: "position option \<Rightarrow> position \<Rightarrow> bool" where
  "replacesLast lastPos p = (case lastPos of None \<Rightarrow> True | Some l \<Rightarrow> isBefore l p)"

fun cursorLoop :: "position option \<Rightarrow> validEditOperation list \<Rightarrow> position option" where
  "cursorLoop lastPos [] = lastPos"
| "cursorLoop lastPos (edit # undoEdits) =
     cursorLoop
       (if replacesLast lastPos (getEndPosition (undoRange edit))
        then Some (getEndPosition (undoRange edit)) else lastPos)
       undoEdits"

definition cursorStateComputerAndInlineDiffCollection ::
  "validEditOperation list \<Rightarrow> selection list option" where
  "cursorStateComputerAndInlineDiffCollection undoEdits =
     (case cursorLoop None undoEdits of
        None \<Rightarrow> None
      | Some lastPos \<Rightarrow> Some [fromPositions lastPos])"

definition makeChanges ::
  "editStrategy \<Rightarrow> singleEditOperation list \<Rightarrow> editStrategy \<times> call list" where
  "makeChanges this edits =
     (let (this', stop) = pushUndoStopBeforeFirstEdit this
      in (this', stop @
            [ExecuteEdits ''inline-chat-live'' edits cursorStateComputerAndInlineDiffCollection]))"

text \<open>
  Modelled from the spec: \<^verbatim>\<open>executeEdits\<close> of the editor is not under src/. The spec has
  the cursor after an atomic apply computed from the edits of the batch; the editor
  gets it by calling the cursor state computer it is given with the edits of the batch
  as it applied them (its inverse edit operations). How the editor derives those from
  the batch is the parameter \<open>inverseOf\<close>.
\<close>

definition cursorAfter ::
  "(singleEditOperation list \<Rightarrow> validEditOperation list) \<Rightarrow> call \<Rightarrow> selection list option" where
  "cursorAfter inverseOf c =
     (case c of
        ExecuteEdits source batch computer \<Rightarrow> computer (inverseOf batch)
      | _ \<Rightarrow> None)"

text \<open>
  The spec's wording of the cursor placement, to compare with the loop: going through
  the edits in order, an edit whose end position is not before the current maximum
  replaces it, so among equal greatest end positions the last one wins.
\<close>

fun lastOneWins :: "position option \<Rightarrow> validEditOperation list \<Rightarrow> position option" where
  "lastOneWins current [] = current"
| "lastOneWins current (edit # undoEdits) =
     lastOneWins
       (case current of
          None \<Rightarrow> Some (getEndPosition (undoRange edit))
        | Some m \<Rightarrow>
            if isBefore (getEndPosition (undoRange edit)) m then Some m
            else Some (getEndPosition (undoRange edit)))
       undoEdits"

text \<open>\<^verbatim>\<open>apply(editor)\<close>: the calls it makes; the strategy itself does not change.\<close>

definition strategy_apply :: "editStrategy \<Rightarrow> call list" where
  "strategy_apply this =
     (if editCount this > 0 then [PushUndoStop] else []) @
     (case lastExchange (strategySession this) of
        None \<Rightarrow> []
      | Some exchange \<Rightarrow>
          (case response exchange of
             ReplyResponse untitled \<Rightarrow>
               (case untitled of
                  None \<Rightarrow> []
                | Some u \<Rightarrow>
                    if \<not> untitledDisposed u \<and> untitledDirty u then [Save EXPLICIT] else [])
           | _ \<Rightarrow> []))"

text \<open>
  \<^verbatim>\<open>cancel()\<close>. The loop undoes while the target is below the model's version and the
  model can undo; every undo takes a state off the model's stack, so the loop ends.
  The target is \<^verbatim>\<open>textModelNSnapshotAltVersion ?? textModelNAltVersion\<close>.
\<close>

function cancelLoop :: "int \<Rightarrow> textModel \<Rightarrow> textModel" where
  "cancelLoop targetAltVersion modelN =
     (if targetAltVersion < getAlternativeVersionId modelN \<and> canUndo modelN
      then cancelLoop targetAltVersion (undo modelN)
      else modelN)"
  by pat_completeness auto
termination
  by (relation "measure (\<lambda>(t, m). length (undoStack m))")
     (auto simp: canUndo_def undo_def split: list.splits)

definition targetAltVersion :: "session \<Rightarrow> int" where
  "targetAltVersion s =
     (case textModelNSnapshotAltVersion s of
        Some snapshot \<Rightarrow> snapshot
      | None \<Rightarrow> textModelNAltVersion s)"

definition cancel :: "editStrategy \<Rightarrow> editStrategy" where
  "cancel this =
     (let s = strategySession this; modelN = textModelN s
      in if isDisposed modelN then this
         else this\<lparr>strategySession :=
                s\<lparr>textModelN := cancelLoop (targetAltVersion s) modelN\<rparr>\<rparr>)"

subsection \<open>Calls that overlap\<close>

text \<open>
  Both operations are asynchronous. \<^verbatim>\<open>makeChanges\<close> never awaits, so it runs in one
  piece. \<^verbatim>\<open>makeProgressiveChanges\<close> runs up to its first \<^verbatim>\<open>await\<close> in one piece (the
  counter and the undo stop) and may then be suspended before each edit of its loop.
  A call is cut into these pieces; calls that overlap run their pieces in any order
  that keeps the order within each call.
\<close>

datatype strategyCall =
    MakeProgressiveChanges "singleEditOperation list" progressingEditsOptions
  | MakeChanges "singleEditOperation list"

datatype segment =
    ProgressiveEnter
  | ProgressiveEdit singleEditOperation progressingEditsOptions
  | AtomicChanges "singleEditOperation list"

fun segmentsOf :: "strategyCall \<Rightarrow> segment list" where
  "segmentsOf (MakeProgressiveChanges edits opts) =
     ProgressiveEnter # map (\<lambda>edit. ProgressiveEdit edit opts) edits"
| "segmentsOf (MakeChanges edits) = [AtomicChanges edits]"

fun runCall ::
  "(string \<Rightarrow> nat) \<Rightarrow> strategyCall \<Rightarrow> editStrategy \<Rightarrow> editStrategy \<times> call list" where
  "runCall countWords (MakeProgressiveChanges edits opts) this =
     makeProgressiveChanges countWords this edits opts"
| "runCall countWords (MakeChanges edits) this = makeChanges this edits"

fun runSegment ::
  "(string \<Rightarrow> nat) \<Rightarrow> segment \<Rightarrow> editStrategy \<Rightarrow> editStrategy \<times> call list" where
  "runSegment countWords ProgressiveEnter this = pushUndoStopBeforeFirstEdit this"
| "runSegment countWords (ProgressiveEdit edit opts) this =
     (this, [progressiveEdit countWords opts edit])"
| "runSegment countWords (AtomicChanges edits) this = makeChanges this edits"

fun runSegments ::
  "(string \<Rightarrow> nat) \<Rightarrow> segment list \<Rightarrow> editStrategy \<Rightarrow> editStrategy \<times> call list" where
  "runSegments countWords [] this = (this, [])"
| "runSegments countWords (g # gs) this =
     (let (this', out) = runSegment countWords g this;
          (this'', out') = runSegments countWords gs this'
      in (this'', out @ out'))"

fun interleavings :: "'a list list \<Rightarrow> 'a list set" where
  "interleavings [] = {[]}"
| "interleavings (xs # xss) = (\<Union>ys \<in> interleavings xss. shuffles xs ys)"

definition entering :: "segment \<Rightarrow> bool" where
  "entering g = (case g of ProgressiveEdit _ _ \<Rightarrow> False | _ \<Rightarrow> True)"

section \<open>NotebookCellChatController\<close>

text \<open>
  The services the controller is given. \<open>editorWorker\<close> is
  \<^verbatim>\<open>IEditorWorkerService.computeMoreMinimalEdits\<close> (its answer may be undefined),
  \<open>wordCounter\<close> is \<^verbatim>\<open>countWords\<close>, \<open>movingAverage\<close> gives the value of a
  \<^verbatim>\<open>MovingAverage\<close> that has been updated with the given samples, oldest first, and
  \<open>replyLocalEdits\<close> is \<^verbatim>\<open>allLocalEdits\<close> of the \<^verbatim>\<open>ReplyResponse\<close> built from a reply and
  the edits that came in as progress. None of them is under src/: they are parameters.
\<close>

record 'r services =
  wordCounter :: "string \<Rightarrow> nat"
  editorWorker :: "textEdit list \<Rightarrow> textEdit list option"
  movingAverage :: "rat list \<Rightarrow> rat"
  replyLocalEdits :: "'r \<Rightarrow> textEdit list list \<Rightarrow> textEdit list list"

text \<open>
  Modelled from the spec: class \<^verbatim>\<open>MovingAverage\<close> (vs/base/common/numbers) is not under
  src/. The spec has it estimate the time per batch from the elapsed times it is
  updated with. The theorems take the estimate as the parameter \<open>movingAverage\<close>;
  the running mean below, which is 0 before its first sample, is the instance used
  where a concrete one is evaluated.
\<close>

definition movingAverageUpdate :: "nat \<times> rat \<Rightarrow> rat \<Rightarrow> nat \<times> rat" where
  "movingAverageUpdate a x = (case a of (n, v) \<Rightarrow> (n + 1, v + (x - v) / of_nat n))"

definition runningMean :: "rat list \<Rightarrow> rat" where
  "runningMean xs = snd (foldl movingAverageUpdate (1, 0) xs)"

record inlineChatWidget =
  widgetValue :: string

record controller =
  activeSession :: "session option"
  strategy :: "editStrategy option"
  widget :: "inlineChatWidget option"
  callLog :: "call list"

definition emit :: "call list \<Rightarrow> controller \<Rightarrow> controller" where
  "emit cs c = c\<lparr>callLog := callLog c @ cs\<rparr>"

datatype error = AssertionFailed | ProgressNotSupported | ProviderFailed

datatype outcome = Returned | Thrown error

text \<open>
  \<^verbatim>\<open>_makeChanges(editor, edits, opts)\<close>. A failed \<^verbatim>\<open>assertType\<close> throws. The awaited
  answer of the editor worker is \<open>editorWorker svc edits\<close>.
\<close>

definition controller_makeChanges ::
  "'r services \<Rightarrow> controller \<Rightarrow> textEdit list \<Rightarrow> progressingEditsOptions option
     \<Rightarrow> outcome \<times> controller" where
  "controller_makeChanges svc c edits opts =
     (case activeSession c of
        None \<Rightarrow> (Thrown AssertionFailed, c)
      | Some s \<Rightarrow>
          (case strategy c of
             None \<Rightarrow> (Thrown AssertionFailed, c)
           | Some strat \<Rightarrow>
               (let moreMinimalEdits = editorWorker svc edits
                in if moreMinimalEdits = Some [] then (Returned, c)
                   else
                     (let actualEdits =
                            (case opts of
                               None \<Rightarrow> (case moreMinimalEdits of Some m \<Rightarrow> m | None \<Rightarrow> edits)
                             | Some _ \<Rightarrow> edits);
                          editOperations = map asEditOperation actualEdits;
                          c1 = emit [TrackEdits editOperations] c;
                          (strat', out) =
                            (case opts of
                               Some pacing \<Rightarrow>
                                 makeProgressiveChanges (wordCounter svc) strat editOperations pacing
                             | None \<Rightarrow> makeChanges strat editOperations)
                      in (Returned, emit out (c1\<lparr>strategy := Some strat'\<rparr>))))))"

subsection \<open>One request\<close>

text \<open>
  \<^verbatim>\<open>IInlineChatProgressItem\<close>, as far as the progress handler reads it: the fields
  \<^verbatim>\<open>message\<close>, \<^verbatim>\<open>edits\<close> and \<^verbatim>\<open>editsShouldBeInstant\<close> of its parameter \<^verbatim>\<open>data\<close>,
  each of which may be missing.
\<close>

record progressItem =
  dataMessage :: "string option"
  dataEdits :: "textEdit list option"
  dataEditsShouldBeInstant :: "bool option"

text \<open>A task waiting in \<^verbatim>\<open>progressiveEditsQueue\<close>: what its closure holds of \<^verbatim>\<open>data\<close>.\<close>

record queuedTask =
  taskEdits :: "textEdit list"
  taskInstant :: bool

text \<open>
  The locals of \<^verbatim>\<open>acceptInput\<close> that the progress handler and the queued tasks share.
  \<open>samples\<close> are the elapsed times \<^verbatim>\<open>progressiveEditsAvgDuration\<close> has been updated
  with. Nothing in the function cancels \<^verbatim>\<open>requestCts\<close>.
\<close>

record requestState =
  live :: bool
  requestCancelled :: bool
  progressEdits :: "textEdit list list"
  samples :: "rat list"
  queued :: "queuedTask list"

definition newRequest :: requestState where
  "newRequest =
     \<lparr>live = True, requestCancelled = False, progressEdits = [], samples = [], queued = []\<rparr>"

text \<open>
  The progress handler, called with an item and with what
  \<^verbatim>\<open>progressiveEditsClock.elapsed()\<close> reads at that moment.
\<close>

definition onProgress ::
  "progressItem \<Rightarrow> rat \<Rightarrow> controller \<times> requestState \<Rightarrow> outcome \<times> controller \<times> requestState" where
  "onProgress data elapsed st =
     (case st of (c, rs) \<Rightarrow>
        if requestCancelled rs then (Returned, c, rs)
        else
          (let c1 = (case dataMessage data of
                       None \<Rightarrow> c
                     | Some m \<Rightarrow> if m = [] then c else emit [UpdateToolbar False, UpdateInfo m] c)
           in case dataEdits data of
                None \<Rightarrow> (Returned, c1, rs)
              | Some es \<Rightarrow>
                  if es = [] then (Returned, c1, rs)
                  else if \<not> live rs then (Thrown ProgressNotSupported, c1, rs)
                  else (Returned, c1,
                        rs\<lparr>progressEdits := progressEdits rs @ [es],
                           samples := samples rs @ [elapsed],
                           queued := queued rs @
                             [\<lparr>taskEdits = es,
                               taskInstant = (dataEditsShouldBeInstant data = Some True)\<rparr>]\<rparr>)))"

text \<open>
  The options a queued task builds when it starts:
  \<^verbatim>\<open>data.editsShouldBeInstant ? undefined : { duration: progressiveEditsAvgDuration.value, token }\<close>.
\<close>

definition taskOpts ::
  "'r services \<Rightarrow> requestState \<Rightarrow> queuedTask \<Rightarrow> progressingEditsOptions option" where
  "taskOpts svc rs t =
     (if taskInstant t then None
      else Some \<lparr>duration = movingAverage svc (samples rs),
                 token = CancellationToken (requestCancelled rs)\<rparr>)"

text \<open>
  The queue starts its next task and the task runs to its end. What a task throws
  stays in the task.
\<close>

definition runQueued ::
  "'r services \<Rightarrow> controller \<times> requestState \<Rightarrow> controller \<times> requestState" where
  "runQueued svc st =
     (case st of (c, rs) \<Rightarrow>
        (case queued rs of
           [] \<Rightarrow> (c, rs)
         | t # ts \<Rightarrow>
             (snd (controller_makeChanges svc c (taskEdits t) (taskOpts svc rs t)),
              rs\<lparr>queued := ts\<rparr>)))"

text \<open>
  What happens while the provider works on the request: progress items arrive, and the
  queue runs tasks, in some order.
\<close>

datatype event = Report progressItem rat | RunQueued

fun runScript ::
  "'r services \<Rightarrow> event list \<Rightarrow> controller \<times> requestState \<Rightarrow> controller \<times> requestState" where
  "runScript svc [] st = st"
| "runScript svc (Report data elapsed # evs) st =
     runScript svc evs (snd (onProgress data elapsed st))"
| "runScript svc (RunQueued # evs) st = runScript svc evs (runQueued svc st)"

text \<open>\<^verbatim>\<open>await Event.toPromise(progressiveEditsQueue.onDrained)\<close>: every waiting task has run.\<close>

function drainQueue ::
  "'r services \<Rightarrow> controller \<times> requestState \<Rightarrow> controller \<times> requestState" where
  "drainQueue svc st =
     (if queued (snd st) = [] then st else drainQueue svc (runQueued svc st))"
  by pat_completeness auto
termination
  by (relation "measure (\<lambda>(svc, st). length (queued (snd st)))")
     (auto simp: runQueued_def split: prod.splits list.splits)

text \<open>
  The loop \<^verbatim>\<open>for (let i = progressEdits.length; i < replyResponse.allLocalEdits.length; i++)\<close>
  of \<^verbatim>\<open>acceptInput\<close>. Each turn awaits \<^verbatim>\<open>_makeChanges\<close>, which first awaits the editor
  worker; tasks still in the queue may run meanwhile. \<open>runs\<close> gives, turn by turn, how
  many of them do (none once the list is used up).
\<close>

function applyRemaining ::
  "'r services \<Rightarrow> nat \<Rightarrow> textEdit list list \<Rightarrow> nat list \<Rightarrow> controller \<times> requestState
     \<Rightarrow> outcome \<times> controller \<times> requestState" where
  "applyRemaining svc i allLocalEdits runs st =
     (if i < length allLocalEdits
      then
        (let st1 = (runQueued svc ^^ (case runs of [] \<Rightarrow> 0 | n # _ \<Rightarrow> n)) st
         in case controller_makeChanges svc (fst st1) (allLocalEdits ! i) None of
              (Returned, c') \<Rightarrow> applyRemaining svc (i + 1) allLocalEdits (tl runs) (c', snd st1)
            | (Thrown e, c') \<Rightarrow> (Thrown e, c', snd st1))
      else (Returned, fst st, snd st))"
  by pat_completeness auto
termination
  by (relation "measure (\<lambda>(svc, i, a, runs, st). length a - i)") auto

text \<open>How the promise of \<^verbatim>\<open>provideResponse\<close> settles: it rejects, or resolves with a reply or none.\<close>

datatype 'r settled = Rejected | Resolved "'r option"

text \<open>
  \<^verbatim>\<open>acceptInput()\<close>. \<open>editorFound\<close> says whether the cell has an editor with a model.
  \<open>script\<close> is what happens until the provider's promise has settled and
  \<^verbatim>\<open>acceptInput\<close> goes on, \<open>result\<close> how the promise settles. Then the size of the queue
  is tested, once, and a queue that still holds tasks is awaited. \<open>draining\<close> is what
  happens during \<^verbatim>\<open>await progress.drain()\<close>: the progress items that were reported but
  not handled yet are handled, which may queue tasks, and tasks may run. Nothing awaits
  the queue after that. \<open>runs\<close> says which tasks run during the last loop. The result
  is how \<^verbatim>\<open>acceptInput\<close> ends, the controller then, and the tasks that are still in the
  queue at that moment.
\<close>

definition acceptInput ::
  "'r services \<Rightarrow> bool \<Rightarrow> event list \<Rightarrow> 'r settled \<Rightarrow> event list \<Rightarrow> nat list \<Rightarrow> controller
     \<Rightarrow> outcome \<times> controller \<times> queuedTask list" where
  "acceptInput svc editorFound script result draining runs c =
     (case activeSession c of
        None \<Rightarrow> (Thrown AssertionFailed, c, [])
      | Some s \<Rightarrow>
          (case widget c of
             None \<Rightarrow> (Thrown AssertionFailed, c, [])
           | Some w \<Rightarrow>
               (let c1 = emit [AddInput (widgetValue w)] c
                in if \<not> editorFound then (Returned, c1, [])
                   else
                     (let c2 = emit [CtxHasActiveRequestSet True, UpdateProgress True] c1;
                          st = runScript svc script (c2, newRequest)
                      in case result of
                           Rejected \<Rightarrow> (Thrown ProviderFailed, fst st, queued (snd st))
                         | Resolved reply \<Rightarrow>
                             (let st1 = (if 0 < length (queued (snd st))
                                         then drainQueue svc st else st);
                                  st2 = runScript svc draining st1
                              in case reply of
                                   None \<Rightarrow>
                                     (Returned,
                                      emit [CtxHasActiveRequestSet False, UpdateProgress False]
                                        (fst st2),
                                      queued (snd st2))
                                 | Some r \<Rightarrow>
                                     (let progressed = progressEdits (snd st2);
                                          allLocalEdits = replyLocalEdits svc r progressed
                                      in case applyRemaining svc (length progressed)
                                                allLocalEdits runs st2 of
                                           (Thrown e, c', rs') \<Rightarrow> (Thrown e, c', queued rs')
                                         | (Returned, c', rs') \<Rightarrow>
                                             (Returned,
                                              emit [CtxHasActiveRequestSet False,
                                                    UpdateProgress False, UpdateInfo [],
                                                    UpdateToolbar True] c',
                                              queued rs')))))))"

text \<open>The items of a script that carry edits, with the elapsed time read at each.\<close>

fun received :: "event list \<Rightarrow> (textEdit list \<times> bool \<times> rat) list" where
  "received [] = []"
| "received (Report data elapsed # evs) =
     (case dataEdits data of
        None \<Rightarrow> received evs
      | Some es \<Rightarrow>
          if es = [] then received evs
          else (es, dataEditsShouldBeInstant data = Some True, elapsed) # received evs)"
| "received (RunQueued # evs) = received evs"

section \<open>Concrete inputs\<close>

text \<open>The inputs at which the theorems below are evaluated.\<close>

definition exRange :: irange where
  "exRange = \<lparr>startLineNumber = 1, startColumn = 1, endLineNumber = 1, endColumn = 1\<rparr>"

definition exTextEdit :: textEdit where
  "exTextEdit = \<lparr>editRange = exRange, editText = ''x = 1''\<rparr>"

definition exOpts :: progressingEditsOptions where
  "exOpts = \<lparr>duration = 100, token = CancellationToken False\<rparr>"

text \<open>A document at version 5 that four undos take back to version 1.\<close>

definition exModel :: textModel where
  "exModel =
     \<lparr>disposed = False, content = ''v5'', alternativeVersionId = 5,
      undoStack = [(''v4'', 4), (''v3'', 3), (''v2'', 2), (''v1'', 1)]\<rparr>"

text \<open>A session whose baseline is version 1 and whose snapshot was taken at version 3.\<close>

definition exSession :: session where
  "exSession =
     \<lparr>textModelN = exModel, textModelNAltVersion = 1,
      textModelNSnapshotAltVersion = Some 3, lastExchange = None\<rparr>"

text \<open>A session without snapshot whose document is at the baseline and can still undo.\<close>

definition exSessionAtBaseline :: session where
  "exSessionAtBaseline =
     \<lparr>textModelN =
        \<lparr>disposed = False, content = ''v1'', alternativeVersionId = 1,
         undoStack = [(''v0'', 0)]\<rparr>,
      textModelNAltVersion = 1, textModelNSnapshotAltVersion = None, lastExchange = None\<rparr>"

text \<open>A strategy that applied two edits and whose last reply left a dirty untitled model.\<close>

definition exStrategyWithUntitled :: editStrategy where
  "exStrategyWithUntitled =
     \<lparr>editCount = 2,
      strategySession =
        \<lparr>textModelN = exModel, textModelNAltVersion = 1,
         textModelNSnapshotAltVersion = None,
         lastExchange =
           Some \<lparr>prompt = ''fix bug'',
                 response =
                   ReplyResponse (Some \<lparr>untitledDisposed = False, untitledDirty = True\<rparr>)\<rparr>\<rparr>\<rparr>"

text \<open>
  Services for the examples: every text counts one word, the editor worker has no
  smaller edits to offer, and a reply is one more batch after those that came as progress.
\<close>

definition exServices :: "(textEdit list) services" where
  "exServices =
     \<lparr>wordCounter = (\<lambda>t. 1), editorWorker = (\<lambda>es. None),
      movingAverage = runningMean, replyLocalEdits = (\<lambda>r progressed. progressed @ [r])\<rparr>"

text \<open>Services whose editor worker finds the batch of \<open>exTextEdit\<close> alone to change nothing.\<close>

definition exServicesNoChange :: "(textEdit list) services" where
  "exServicesNoChange =
     \<lparr>wordCounter = (\<lambda>t. 1),
      editorWorker = (\<lambda>es. if es = [exTextEdit] then Some [] else None),
      movingAverage = runningMean, replyLocalEdits = (\<lambda>r progressed. progressed @ [r])\<rparr>"

definition exController :: controller where
  "exController =
     \<lparr>activeSession = Some exSession, strategy = Some (newEditStrategy exSession),
      widget = Some \<lparr>widgetValue = ''fix bug''\<rparr>, callLog = []\<rparr>"

text \<open>A progress item that only carries a message.\<close>

definition exMessageItem :: progressItem where
  "exMessageItem =
     \<lparr>dataMessage = Some ''Thinking'', dataEdits = None, dataEditsShouldBeInstant = None\<rparr>"

text \<open>
  An editor whose inverse edit operations have the ranges of the edits, as for
  replacements by texts of the same lengths.
\<close>

definition exInverseOf :: "singleEditOperation list \<Rightarrow> validEditOperation list" where
  "exInverseOf batch = map (\<lambda>e. \<lparr>undoRange = opRange e, undoText = []\<rparr>) batch"

definition exEditEnding :: "int \<Rightarrow> int \<Rightarrow> singleEditOperation" where
  "exEditEnding l c =
     \<lparr>opRange = \<lparr>startLineNumber = 1, startColumn = 1, endLineNumber = l, endColumn = c\<rparr>,
      opText = None\<rparr>"

definition exItem :: progressItem where
  "exItem =
     \<lparr>dataMessage = None, dataEdits = Some [exTextEdit], dataEditsShouldBeInstant = None\<rparr>"

text \<open>
  What holds of the locals of a request at every moment: the average has one sample per
  batch received, and the waiting tasks are the last batches received.
\<close>

definition requestInv :: "requestState \<Rightarrow> bool" where
  "requestInv rs =
     (live rs \<and> \<not> requestCancelled rs \<and>
      length (samples rs) = length (progressEdits rs) \<and>
      length (queued rs) \<le> length (progressEdits rs) \<and>
      map taskEdits (queued rs) =
        drop (length (progressEdits rs) - length (queued rs)) (progressEdits rs))"

section \<open>Divisions of doubles\<close>

declare bitLength.simps [simp del]

lemma floor_numeral_quotient:
  "\<lfloor>(numeral a :: rat) / numeral b\<rfloor> = numeral a div numeral b"
  using floor_divide_of_int_eq[of "numeral a" "numeral b", where ?'a = rat] by simp

lemma floor_one_quotient:
  "\<lfloor>(1 :: rat) / numeral b\<rfloor> = 1 div numeral b"
  using floor_divide_of_int_eq[of 1 "numeral b", where ?'a = rat] by simp

text \<open>100, 200 and 300 milliseconds in seconds, and one word in each.\<close>

lemma seconds_100:
  "jsDivide (Finite 100) (Finite 1000) = Finite (3602879701896397 / 36028797018963968)"
  by (simp add: jsDivide_def isNegative_def isInfinite_def isZero_def valueOf_def
      roundToDouble_def roundMagnitude_def exponentOf_def roundHalfEven_def pow2_def Let_def
      bitLength.simps floor_numeral_quotient floor_one_quotient)

lemma seconds_200:
  "jsDivide (Finite 200) (Finite 1000) = Finite (3602879701896397 / 18014398509481984)"
  by (simp add: jsDivide_def isNegative_def isInfinite_def isZero_def valueOf_def
      roundToDouble_def roundMagnitude_def exponentOf_def roundHalfEven_def pow2_def Let_def
      bitLength.simps floor_numeral_quotient floor_one_quotient)

lemma seconds_300:
  "jsDivide (Finite 300) (Finite 1000) = Finite (5404319552844595 / 18014398509481984)"
  by (simp add: jsDivide_def isNegative_def isInfinite_def isZero_def valueOf_def
      roundToDouble_def roundMagnitude_def exponentOf_def roundHalfEven_def pow2_def Let_def
      bitLength.simps floor_numeral_quotient floor_one_quotient)

lemma one_word_in_100:
  "jsDivide (Finite 1) (jsDivide (Finite 100) (Finite 1000)) = Finite 10"
  unfolding seconds_100
  by (simp add: jsDivide_def isNegative_def isInfinite_def isZero_def valueOf_def
      roundToDouble_def roundMagnitude_def exponentOf_def roundHalfEven_def pow2_def Let_def
      bitLength.simps floor_numeral_quotient floor_one_quotient)

lemma one_word_in_200:
  "jsDivide (Finite 1) (jsDivide (Finite 200) (Finite 1000)) = Finite 5"
  unfolding seconds_200
  by (simp add: jsDivide_def isNegative_def isInfinite_def isZero_def valueOf_def
      roundToDouble_def roundMagnitude_def exponentOf_def roundHalfEven_def pow2_def Let_def
      bitLength.simps floor_numeral_quotient floor_one_quotient)

lemma one_word_in_300:
  "jsDivide (Finite 1) (jsDivide (Finite 300) (Finite 1000)) =
     Finite (7505999378950827 / 2251799813685248)"
  unfolding seconds_300
  by (simp add: jsDivide_def isNegative_def isInfinite_def isZero_def valueOf_def
      roundToDouble_def roundMagnitude_def exponentOf_def roundHalfEven_def pow2_def Let_def
      bitLength.simps floor_numeral_quotient floor_one_quotient)

lemma words_in_no_time:
  "jsDivide (Finite (of_nat n)) (jsDivide (Finite 0) (Finite 1000)) =
     (if n = 0 then NaN else PosInfinity)"
  by (simp add: jsDivide_def isNegative_def isInfinite_def isZero_def valueOf_def Let_def)

section \<open>The undo stop\<close>

lemma runSegments_edits:
  "runSegments cw (map (\<lambda>edit. ProgressiveEdit edit opts) es) this =
     (this, map (progressiveEdit cw opts) es)"
  by (induction es) auto

text \<open>Run without interruption, the pieces of a call are the call.\<close>

lemma runSegments_segmentsOf: "runSegments cw (segmentsOf c) this = runCall cw c this"
  by (cases c) (auto simp: makeProgressiveChanges_def runSegments_edits split: prod.splits)

lemma progressiveEdit_not_stop: "progressiveEdit cw opts e \<noteq> PushUndoStop"
  by (simp add: progressiveEdit_def Let_def)

lemma runSegment_started:
  "0 < editCount this \<Longrightarrow> runSegment cw g this = (this', out) \<Longrightarrow>
     0 < editCount this' \<and> PushUndoStop \<notin> set out"
  by (cases g)
     (auto simp: pushUndoStopBeforeFirstEdit_def makeChanges_def Let_def
        progressiveEdit_not_stop progressiveEdit_not_stop[symmetric])

lemma runSegments_started:
  "0 < editCount this \<Longrightarrow>
     PushUndoStop \<notin> set (snd (runSegments cw gs this)) \<and>
     0 < editCount (fst (runSegments cw gs this))"
proof (induction gs arbitrary: this)
  case Nil
  then show ?case by simp
next
  case (Cons g gs)
  obtain this' out where r: "runSegment cw g this = (this', out)"
    by (cases "runSegment cw g this")
  from runSegment_started[OF Cons.prems r]
  have s: "0 < editCount this'" "PushUndoStop \<notin> set out" by auto
  from Cons.IH[OF s(1)] s(2) r show ?case by (auto split: prod.splits)
qed

lemma runSegment_first:
  "entering g \<Longrightarrow> editCount this = 0 \<Longrightarrow>
     \<exists>this' out. runSegment cw g this = (this', PushUndoStop # out) \<and>
        PushUndoStop \<notin> set out \<and> editCount this' = 1"
  by (cases g) (auto simp: entering_def pushUndoStopBeforeFirstEdit_def makeChanges_def Let_def)

lemma interleavings_head:
  "tr \<in> interleavings xss \<Longrightarrow> tr \<noteq> [] \<Longrightarrow> \<exists>xs \<in> set xss. xs \<noteq> [] \<and> hd tr = hd xs"
proof (induction xss arbitrary: tr)
  case Nil
  then show ?case by simp
next
  case (Cons xs xss)
  then obtain ys where ys: "ys \<in> interleavings xss" "tr \<in> shuffles xs ys" by auto
  from Cons.prems(2) obtain z zs where tr: "tr = z # zs" by (cases tr) auto
  from ys(2)[unfolded tr Cons_in_shuffles_iff]
  consider "xs \<noteq> []" "hd xs = z" | "ys \<noteq> []" "hd ys = z" by auto
  then show ?case
  proof cases
    case 1
    then show ?thesis by (auto simp: tr)
  next
    case 2
    from Cons.IH[OF ys(1) 2(1)] 2(2) show ?thesis by (auto simp: tr)
  qed
qed

lemma interleavings_nonempty:
  "tr \<in> interleavings xss \<Longrightarrow> \<exists>xs \<in> set xss. xs \<noteq> [] \<Longrightarrow> tr \<noteq> []"
proof (induction xss arbitrary: tr)
  case Nil
  then show ?case by simp
next
  case (Cons xs xss)
  then obtain ys where ys: "ys \<in> interleavings xss" "tr \<in> shuffles xs ys" by auto
  show ?case
  proof
    assume "tr = []"
    with ys(2) have "xs = []" "ys = []" by auto
    with Cons.IH[OF ys(1)] Cons.prems(2) show False by auto
  qed
qed

lemma strategy_apply_started:
  "0 < editCount this \<Longrightarrow>
     \<exists>saves. strategy_apply this = PushUndoStop # saves \<and> PushUndoStop \<notin> set saves"
  by (auto simp: strategy_apply_def split: option.splits response.splits)

text \<open>
  C1. In a new session, however the pieces of any calls of \<^verbatim>\<open>makeProgressiveChanges\<close> and
  \<^verbatim>\<open>makeChanges\<close> interleave, the calls made on the editor start with one undo stop and
  hold no other: the stop comes before the first edit and never before a later one.
  \<^verbatim>\<open>apply\<close> afterwards pushes one closing undo stop.
\<close>

theorem undo_stop_once:
  assumes "calls \<noteq> []" and "tr \<in> interleavings (map segmentsOf calls)"
  shows "\<exists>rest saves.
           snd (runSegments countWords tr (newEditStrategy s)) = PushUndoStop # rest \<and>
           PushUndoStop \<notin> set rest \<and>
           strategy_apply (fst (runSegments countWords tr (newEditStrategy s))) =
             PushUndoStop # saves \<and>
           PushUndoStop \<notin> set saves"
proof -
  have ne: "\<exists>xs \<in> set (map segmentsOf calls). xs \<noteq> []"
    using assms(1) by (cases calls; cases "hd calls") auto
  from interleavings_nonempty[OF assms(2) ne] obtain g gs where tr: "tr = g # gs"
    by (cases tr) auto
  from interleavings_head[OF assms(2)] tr obtain c where g: "g = hd (segmentsOf c)" by auto
  have ent: "entering g" unfolding g by (cases c) (auto simp: entering_def)
  have z: "editCount (newEditStrategy s) = 0" by (simp add: newEditStrategy_def)
  from runSegment_first[OF ent z, of countWords] obtain this' out
    where r: "runSegment countWords g (newEditStrategy s) = (this', PushUndoStop # out)"
      and out: "PushUndoStop \<notin> set out" and c1: "editCount this' = 1" by blast
  from c1 have pos: "0 < editCount this'" by simp
  from runSegments_started[OF pos, of countWords gs]
  have rest: "PushUndoStop \<notin> set (snd (runSegments countWords gs this'))"
    and fin: "0 < editCount (fst (runSegments countWords gs this'))" by auto
  from strategy_apply_started[OF fin] obtain saves where
    sv: "strategy_apply (fst (runSegments countWords gs this')) = PushUndoStop # saves"
      "PushUndoStop \<notin> set saves" by blast
  show ?thesis using r out rest sv by (auto simp: tr split: prod.splits)
qed

text \<open>
  A progressive call with one edit that is suspended while an atomic call runs: the
  undo stop comes first, and once.
\<close>

theorem undo_stop_once_witness:
  "[MakeProgressiveChanges [asEditOperation exTextEdit] exOpts,
    MakeChanges [asEditOperation exTextEdit]] \<noteq> [] \<and>
   [ProgressiveEnter, AtomicChanges [asEditOperation exTextEdit],
    ProgressiveEdit (asEditOperation exTextEdit) exOpts]
     \<in> interleavings (map segmentsOf
          [MakeProgressiveChanges [asEditOperation exTextEdit] exOpts,
           MakeChanges [asEditOperation exTextEdit]]) \<and>
   (\<exists>rest saves.
      snd (runSegments (\<lambda>t. 1)
             [ProgressiveEnter, AtomicChanges [asEditOperation exTextEdit],
              ProgressiveEdit (asEditOperation exTextEdit) exOpts]
             (newEditStrategy exSession)) = PushUndoStop # rest \<and>
      PushUndoStop \<notin> set rest \<and>
      strategy_apply (fst (runSegments (\<lambda>t. 1)
             [ProgressiveEnter, AtomicChanges [asEditOperation exTextEdit],
              ProgressiveEdit (asEditOperation exTextEdit) exOpts]
             (newEditStrategy exSession))) = PushUndoStop # saves \<and>
      PushUndoStop \<notin> set saves)"
proof -
  have a: "[MakeProgressiveChanges [asEditOperation exTextEdit] exOpts,
            MakeChanges [asEditOperation exTextEdit]] \<noteq> []" by simp
  have b: "[ProgressiveEnter, AtomicChanges [asEditOperation exTextEdit],
            ProgressiveEdit (asEditOperation exTextEdit) exOpts]
     \<in> interleavings (map segmentsOf
          [MakeProgressiveChanges [asEditOperation exTextEdit] exOpts,
           MakeChanges [asEditOperation exTextEdit]])"
    by (simp add: Cons_in_shuffles_iff)
  from undo_stop_once[OF a b, of "\<lambda>t. 1" exSession] a b show ?thesis by blast
qed

section \<open>The cursor after an atomic edit\<close>

lemma isBefore_irrefl: "\<not> isBefore p p"
  by (simp add: isBefore_def)

lemma isBefore_trans: "isBefore a b \<Longrightarrow> isBefore b c \<Longrightarrow> isBefore a c"
  by (auto simp: isBefore_def split: if_splits)

lemma isBefore_cases: "isBefore a c \<Longrightarrow> isBefore a b \<or> isBefore b c"
  by (auto simp: isBefore_def split: if_splits)

lemma isBefore_asym: "isBefore a b \<Longrightarrow> \<not> isBefore b a"
  by (auto simp: isBefore_def split: if_splits)

lemma isBefore_total: "(a :: position) \<noteq> b \<Longrightarrow> isBefore a b \<or> isBefore b a"
  by (cases a; cases b) (auto simp: isBefore_def)

lemma cursorLoop_Some:
  "\<exists>p. cursorLoop (Some m) es = Some p \<and>
       (p = m \<or> (\<exists>e \<in> set es. p = getEndPosition (undoRange e))) \<and>
       \<not> isBefore p m \<and> (\<forall>e \<in> set es. \<not> isBefore p (getEndPosition (undoRange e)))"
proof (induction es arbitrary: m)
  case Nil
  then show ?case by (simp add: isBefore_irrefl)
next
  case (Cons e es)
  let ?q = "getEndPosition (undoRange e)"
  show ?case
  proof (cases "isBefore m ?q")
    case True
    from Cons.IH[of ?q] obtain p where p: "cursorLoop (Some ?q) es = Some p"
      "p = ?q \<or> (\<exists>e \<in> set es. p = getEndPosition (undoRange e))"
      "\<not> isBefore p ?q" "\<forall>e \<in> set es. \<not> isBefore p (getEndPosition (undoRange e))"
      by blast
    have "\<not> isBefore p m" using p(3) True isBefore_trans by blast
    with p True show ?thesis by (auto simp: replacesLast_def)
  next
    case False
    from Cons.IH[of m] obtain p where p: "cursorLoop (Some m) es = Some p"
      "p = m \<or> (\<exists>e \<in> set es. p = getEndPosition (undoRange e))"
      "\<not> isBefore p m" "\<forall>e \<in> set es. \<not> isBefore p (getEndPosition (undoRange e))"
      by blast
    have "\<not> isBefore p ?q" using p(3) False isBefore_cases by blast
    with p False show ?thesis by (auto simp: replacesLast_def)
  qed
qed

lemma cursorLoop_None:
  "es \<noteq> [] \<Longrightarrow>
     \<exists>e \<in> set es. cursorLoop None es = Some (getEndPosition (undoRange e)) \<and>
       (\<forall>e' \<in> set es.
          \<not> isBefore (getEndPosition (undoRange e)) (getEndPosition (undoRange e')))"
proof (cases es)
  case Nil
  assume "es \<noteq> []"
  with Nil show ?thesis by simp
next
  case (Cons e es')
  from cursorLoop_Some[of "getEndPosition (undoRange e)" es'] obtain p where
    p: "cursorLoop (Some (getEndPosition (undoRange e))) es' = Some p"
      "p = getEndPosition (undoRange e) \<or> (\<exists>e \<in> set es'. p = getEndPosition (undoRange e))"
      "\<not> isBefore p (getEndPosition (undoRange e))"
      "\<forall>e \<in> set es'. \<not> isBefore p (getEndPosition (undoRange e))" by blast
  then show ?thesis unfolding Cons by (auto simp: replacesLast_def)
qed

text \<open>The loop of the code and the loop of the spec's wording hold the same position.\<close>

lemma cursorLoop_lastOneWins: "cursorLoop current es = lastOneWins current es"
proof (induction es arbitrary: current)
  case Nil
  then show ?case by simp
next
  case (Cons e es)
  let ?q = "getEndPosition (undoRange e)"
  have "(if replacesLast current ?q then Some ?q else current) =
        (case current of None \<Rightarrow> Some ?q
         | Some m \<Rightarrow> if isBefore ?q m then Some m else Some ?q)"
  proof (cases current)
    case None
    then show ?thesis by (simp add: replacesLast_def)
  next
    case (Some m)
    show ?thesis
    proof (cases "isBefore m ?q")
      case True
      with isBefore_asym[OF True] Some show ?thesis by (simp add: replacesLast_def)
    next
      case False
      with isBefore_total[of m ?q] Some show ?thesis by (auto simp: replacesLast_def)
    qed
  qed
  with Cons.IH show ?case by simp
qed

text \<open>Among the edits that end at the greatest end position there is a last one.\<close>

lemma last_greatest:
  assumes "es \<noteq> []"
  shows "\<exists>i<length es.
           cursorLoop None es = Some (getEndPosition (undoRange (es ! i))) \<and>
           (\<forall>j<length es.
              \<not> isBefore (getEndPosition (undoRange (es ! i))) (getEndPosition (undoRange (es ! j)))) \<and>
           (\<forall>j<length es. i < j \<longrightarrow>
              isBefore (getEndPosition (undoRange (es ! j))) (getEndPosition (undoRange (es ! i))))"
proof -
  from cursorLoop_None[OF assms] obtain e where e: "e \<in> set es"
    "cursorLoop None es = Some (getEndPosition (undoRange e))"
    "\<forall>e' \<in> set es. \<not> isBefore (getEndPosition (undoRange e)) (getEndPosition (undoRange e'))"
    by blast
  let ?p = "getEndPosition (undoRange e)"
  let ?I = "{j. j < length es \<and> getEndPosition (undoRange (es ! j)) = ?p}"
  from e(1) obtain k where k: "k < length es" "es ! k = e" by (auto simp: in_set_conv_nth)
  then have ne: "?I \<noteq> {}" by auto
  have fin: "finite ?I" by simp
  let ?i = "Max ?I"
  from Max_in[OF fin ne] have i: "?i < length es" "getEndPosition (undoRange (es ! ?i)) = ?p"
    by auto
  have gr: "\<forall>j<length es. \<not> isBefore ?p (getEndPosition (undoRange (es ! j)))"
    using e(3) by auto
  have later: "\<forall>j<length es. ?i < j \<longrightarrow> isBefore (getEndPosition (undoRange (es ! j))) ?p"
  proof (intro allI impI)
    fix j
    assume j: "j < length es" "?i < j"
    have "getEndPosition (undoRange (es ! j)) \<noteq> ?p"
    proof
      assume "getEndPosition (undoRange (es ! j)) = ?p"
      with j(1) have "j \<in> ?I" by simp
      from Max_ge[OF fin this] j(2) show False by simp
    qed
    with isBefore_total[of "getEndPosition (undoRange (es ! j))" ?p] gr j(1)
    show "isBefore (getEndPosition (undoRange (es ! j))) ?p" by blast
  qed
  from i e(2) gr later show ?thesis by (intro exI[of _ ?i]) simp
qed

text \<open>
  C3. \<^verbatim>\<open>makeChanges\<close> hands the editor the batch with its cursor state computer, and the
  cursor after the edit is what the computer returns for the edits of the batch as the
  editor applied them. The computer holds the same position as the loop of the spec's
  wording, in which a later edit whose end position equals the current maximum
  replaces it. For a batch that is not empty the cursor is one selection at the end
  position of an edit of the batch that no edit ends after and that every later edit
  ends strictly before: the last edit with the greatest end position.
\<close>

theorem makeChanges_cursor_last_wins:
  "cursorAfter inverseOf (last (snd (makeChanges this es))) =
     cursorStateComputerAndInlineDiffCollection (inverseOf es) \<and>
   cursorStateComputerAndInlineDiffCollection (inverseOf es) =
     (case lastOneWins None (inverseOf es) of
        None \<Rightarrow> None
      | Some p \<Rightarrow> Some [fromPositions p]) \<and>
   (inverseOf es \<noteq> [] \<longrightarrow>
      (\<exists>i<length (inverseOf es).
          cursorStateComputerAndInlineDiffCollection (inverseOf es) =
            Some [fromPositions (getEndPosition (undoRange (inverseOf es ! i)))] \<and>
          (\<forall>j<length (inverseOf es).
              \<not> isBefore (getEndPosition (undoRange (inverseOf es ! i)))
                         (getEndPosition (undoRange (inverseOf es ! j)))) \<and>
          (\<forall>j<length (inverseOf es). i < j \<longrightarrow>
              isBefore (getEndPosition (undoRange (inverseOf es ! j)))
                       (getEndPosition (undoRange (inverseOf es ! i))))))"
proof -
  have a: "cursorAfter inverseOf (last (snd (makeChanges this es))) =
     cursorStateComputerAndInlineDiffCollection (inverseOf es)"
    by (simp add: makeChanges_def pushUndoStopBeforeFirstEdit_def Let_def cursorAfter_def)
  have b: "cursorStateComputerAndInlineDiffCollection (inverseOf es) =
     (case lastOneWins None (inverseOf es) of
        None \<Rightarrow> None
      | Some p \<Rightarrow> Some [fromPositions p])"
    by (simp add: cursorStateComputerAndInlineDiffCollection_def cursorLoop_lastOneWins)
  have c: "inverseOf es \<noteq> [] \<longrightarrow>
      (\<exists>i<length (inverseOf es).
          cursorStateComputerAndInlineDiffCollection (inverseOf es) =
            Some [fromPositions (getEndPosition (undoRange (inverseOf es ! i)))] \<and>
          (\<forall>j<length (inverseOf es).
              \<not> isBefore (getEndPosition (undoRange (inverseOf es ! i)))
                         (getEndPosition (undoRange (inverseOf es ! j)))) \<and>
          (\<forall>j<length (inverseOf es). i < j \<longrightarrow>
              isBefore (getEndPosition (undoRange (inverseOf es ! j)))
                       (getEndPosition (undoRange (inverseOf es ! i)))))"
  proof
    assume ne: "inverseOf es \<noteq> []"
    from last_greatest[OF ne] obtain i where i: "i < length (inverseOf es)"
      "cursorLoop None (inverseOf es) = Some (getEndPosition (undoRange (inverseOf es ! i)))"
      "\<forall>j<length (inverseOf es).
              \<not> isBefore (getEndPosition (undoRange (inverseOf es ! i)))
                         (getEndPosition (undoRange (inverseOf es ! j)))"
      "\<forall>j<length (inverseOf es). i < j \<longrightarrow>
              isBefore (getEndPosition (undoRange (inverseOf es ! j)))
                       (getEndPosition (undoRange (inverseOf es ! i)))"
      by blast
    from i(2) have "cursorStateComputerAndInlineDiffCollection (inverseOf es) =
            Some [fromPositions (getEndPosition (undoRange (inverseOf es ! i)))]"
      by (simp add: cursorStateComputerAndInlineDiffCollection_def)
    with i(1,3,4) show "\<exists>i<length (inverseOf es).
          cursorStateComputerAndInlineDiffCollection (inverseOf es) =
            Some [fromPositions (getEndPosition (undoRange (inverseOf es ! i)))] \<and>
          (\<forall>j<length (inverseOf es).
              \<not> isBefore (getEndPosition (undoRange (inverseOf es ! i)))
                         (getEndPosition (undoRange (inverseOf es ! j)))) \<and>
          (\<forall>j<length (inverseOf es). i < j \<longrightarrow>
              isBefore (getEndPosition (undoRange (inverseOf es ! j)))
                       (getEndPosition (undoRange (inverseOf es ! i))))"
      by blast
  qed
  from a b c show ?thesis by blast
qed

text \<open>A batch of edits that end at (1,5), (1,5) and (1,10), in that order: the cursor is (1,10).\<close>

theorem makeChanges_cursor_last_wins_witness:
  "exInverseOf [exEditEnding 1 5, exEditEnding 1 5, exEditEnding 1 10] \<noteq> [] \<and>
   cursorAfter exInverseOf
     (last (snd (makeChanges (newEditStrategy exSession)
                   [exEditEnding 1 5, exEditEnding 1 5, exEditEnding 1 10]))) =
     Some [fromPositions \<lparr>lineNumber = 1, column = 10\<rparr>]"
proof -
  let ?es = "[exEditEnding 1 5, exEditEnding 1 5, exEditEnding 1 10]"
  have ne: "exInverseOf ?es \<noteq> []" by (simp add: exInverseOf_def)
  from makeChanges_cursor_last_wins[of exInverseOf "newEditStrategy exSession" ?es]
  have "cursorAfter exInverseOf (last (snd (makeChanges (newEditStrategy exSession) ?es))) =
      (case lastOneWins None (exInverseOf ?es) of
         None \<Rightarrow> None
       | Some p \<Rightarrow> Some [fromPositions p])"
    by simp
  then show ?thesis using ne
    by (simp add: exInverseOf_def exEditEnding_def getEndPosition_def isBefore_def)
qed

section \<open>Finalizing\<close>

text \<open>
  C6. \<^verbatim>\<open>apply\<close> pushes the closing undo stop exactly when the edit count is above 0, and
  then saves, with the explicit save reason, exactly when the last exchange's response
  is a reply with an untitled model that is neither disposed nor clean; it makes no
  other call.
\<close>

theorem apply_pushes_and_saves:
  "strategy_apply this =
     (if 0 < editCount this then [PushUndoStop] else []) @
     (if (\<exists>exchange u. lastExchange (strategySession this) = Some exchange \<and>
                       response exchange = ReplyResponse (Some u) \<and>
                       \<not> untitledDisposed u \<and> untitledDirty u)
      then [Save EXPLICIT] else [])"
  by (auto simp: strategy_apply_def split: option.splits response.splits)

theorem apply_pushes_and_saves_witness:
  "strategy_apply exStrategyWithUntitled = [PushUndoStop, Save EXPLICIT] \<and>
   strategy_apply (newEditStrategy exSession) = []"
  using apply_pushes_and_saves[of exStrategyWithUntitled]
    apply_pushes_and_saves[of "newEditStrategy exSession"]
  by (simp add: exStrategyWithUntitled_def newEditStrategy_def exSession_def)

section \<open>Cancelling\<close>

declare cancelLoop.simps [simp del]

lemma cancelLoop_done:
  assumes "\<not> (t < getAlternativeVersionId m \<and> canUndo m)"
  shows "cancelLoop t m = m"
  by (subst cancelLoop.simps) (use assms in auto)

lemma cancelLoop_step:
  assumes "t < getAlternativeVersionId m \<and> canUndo m"
  shows "cancelLoop t m = cancelLoop t (undo m)"
  by (subst cancelLoop.simps) (use assms in auto)

lemma targetAltVersion_textModelN [simp]:
  "targetAltVersion (s\<lparr>textModelN := x\<rparr>) = targetAltVersion s"
  by (simp add: targetAltVersion_def split: option.splits)

text \<open>The loop performs the least number of undos after which its condition fails.\<close>

lemma cancelLoop_char:
  "\<exists>k. cancelLoop t m = (undo ^^ k) m \<and>
       (\<forall>j<k. t < getAlternativeVersionId ((undo ^^ j) m) \<and> canUndo ((undo ^^ j) m)) \<and>
       \<not> (t < getAlternativeVersionId ((undo ^^ k) m) \<and> canUndo ((undo ^^ k) m))"
proof (induction t m rule: cancelLoop.induct)
  case (1 t m)
  show ?case
  proof (cases "t < getAlternativeVersionId m \<and> canUndo m")
    case True
    from 1[OF True] obtain k where k: "cancelLoop t (undo m) = (undo ^^ k) (undo m)"
      "\<forall>j<k. t < getAlternativeVersionId ((undo ^^ j) (undo m)) \<and>
             canUndo ((undo ^^ j) (undo m))"
      "\<not> (t < getAlternativeVersionId ((undo ^^ k) (undo m)) \<and>
          canUndo ((undo ^^ k) (undo m)))"
      by blast
    have step: "\<And>j. (undo ^^ j) (undo m) = (undo ^^ Suc j) m" by (simp add: funpow_swap1)
    have "cancelLoop t m = (undo ^^ Suc k) m"
      using cancelLoop_step[OF True] k(1) by (simp add: funpow_swap1)
    moreover
    have "\<forall>j<Suc k. t < getAlternativeVersionId ((undo ^^ j) m) \<and> canUndo ((undo ^^ j) m)"
    proof (intro allI impI)
      fix j
      assume "j < Suc k"
      show "t < getAlternativeVersionId ((undo ^^ j) m) \<and> canUndo ((undo ^^ j) m)"
      proof (cases j)
        case 0
        with True show ?thesis by simp
      next
        case (Suc j')
        with \<open>j < Suc k\<close> have "j' < k" by simp
        with k(2) have "t < getAlternativeVersionId ((undo ^^ j') (undo m)) \<and>
            canUndo ((undo ^^ j') (undo m))" by blast
        then show ?thesis unfolding Suc step .
      qed
    qed
    moreover
    have "\<not> (t < getAlternativeVersionId ((undo ^^ Suc k) m) \<and> canUndo ((undo ^^ Suc k) m))"
      using k(3) unfolding step .
    ultimately show ?thesis by blast
  next
    case False
    from cancelLoop_done[OF False] False show ?thesis by (intro exI[of _ 0]) simp
  qed
qed

lemma cancelLoop_stops:
  "\<not> (t < getAlternativeVersionId (cancelLoop t m) \<and> canUndo (cancelLoop t m))"
proof (induction t m rule: cancelLoop.induct)
  case (1 t m)
  show ?case
  proof (cases "t < getAlternativeVersionId m \<and> canUndo m")
    case True
    from cancelLoop_step[OF True] 1[OF True] show ?thesis by simp
  next
    case False
    with cancelLoop_done[OF False] show ?thesis by simp
  qed
qed

lemma undo_disposed: "disposed (undo m) = disposed m"
  by (simp add: undo_def split: list.splits)

lemma cancelLoop_disposed: "disposed (cancelLoop t m) = disposed m"
proof (induction t m rule: cancelLoop.induct)
  case (1 t m)
  show ?case
  proof (cases "t < getAlternativeVersionId m \<and> canUndo m")
    case True
    from cancelLoop_step[OF True] 1[OF True] show ?thesis by (simp add: undo_disposed)
  next
    case False
    with cancelLoop_done[OF False] show ?thesis by simp
  qed
qed

text \<open>
  C2, as the code has it. \<^verbatim>\<open>cancel\<close> leaves everything as it is when the document is
  disposed. Otherwise it undoes the document \<open>k\<close> times, where \<open>k\<close> is the first number
  of undos after which the document's alternative version id is at or below the target
  or no undo is left. The target is the snapshot marker when the session has one, and
  the baseline marker only when it has none.
\<close>

theorem cancel_undoes_to_target:
  "(isDisposed (textModelN (strategySession this)) \<longrightarrow> cancel this = this) \<and>
   (\<not> isDisposed (textModelN (strategySession this)) \<longrightarrow>
      (\<exists>k. cancel this =
              this\<lparr>strategySession :=
                (strategySession this)
                  \<lparr>textModelN := (undo ^^ k) (textModelN (strategySession this))\<rparr>\<rparr> \<and>
           (\<forall>j<k. (case textModelNSnapshotAltVersion (strategySession this) of
                       Some snapshot \<Rightarrow> snapshot
                     | None \<Rightarrow> textModelNAltVersion (strategySession this))
                     < getAlternativeVersionId ((undo ^^ j) (textModelN (strategySession this))) \<and>
                   canUndo ((undo ^^ j) (textModelN (strategySession this)))) \<and>
           \<not> ((case textModelNSnapshotAltVersion (strategySession this) of
                       Some snapshot \<Rightarrow> snapshot
                     | None \<Rightarrow> textModelNAltVersion (strategySession this))
                  < getAlternativeVersionId ((undo ^^ k) (textModelN (strategySession this))) \<and>
               canUndo ((undo ^^ k) (textModelN (strategySession this))))))"
proof -
  let ?s = "strategySession this"
  let ?m = "textModelN ?s"
  from cancelLoop_char[of "targetAltVersion ?s" ?m] obtain k where
    k: "cancelLoop (targetAltVersion ?s) ?m = (undo ^^ k) ?m"
       "\<forall>j<k. targetAltVersion ?s < getAlternativeVersionId ((undo ^^ j) ?m) \<and>
              canUndo ((undo ^^ j) ?m)"
       "\<not> (targetAltVersion ?s < getAlternativeVersionId ((undo ^^ k) ?m) \<and>
           canUndo ((undo ^^ k) ?m))"
    by blast
  have d: "isDisposed ?m \<longrightarrow> cancel this = this" by (simp add: cancel_def Let_def)
  have "\<not> isDisposed ?m \<longrightarrow>
          cancel this = this\<lparr>strategySession := ?s\<lparr>textModelN := (undo ^^ k) ?m\<rparr>\<rparr>"
    using k(1) by (simp add: cancel_def Let_def)
  with d k(2,3) show ?thesis unfolding targetAltVersion_def by blast
qed

text \<open>
  The document at version 5, baseline 1, snapshot 3: two undos, and the document
  is at the snapshot's version 3.
\<close>

theorem cancel_undoes_to_target_witness:
  "\<not> isDisposed (textModelN (strategySession (newEditStrategy exSession))) \<and>
   getAlternativeVersionId (textModelN (strategySession (cancel (newEditStrategy exSession)))) = 3"
proof -
  let ?S = "newEditStrategy exSession"
  have nd: "\<not> isDisposed (textModelN (strategySession ?S))"
    by (simp add: exSession_def exModel_def newEditStrategy_def isDisposed_def
        getAlternativeVersionId_def canUndo_def undo_def)
  from cancel_undoes_to_target[of ?S] nd obtain k where
    c: "cancel ?S = ?S\<lparr>strategySession :=
           (strategySession ?S)\<lparr>textModelN := (undo ^^ k) (textModelN (strategySession ?S))\<rparr>\<rparr>"
    and b: "\<forall>j<k. (case textModelNSnapshotAltVersion (strategySession ?S) of
                       Some snapshot \<Rightarrow> snapshot
                     | None \<Rightarrow> textModelNAltVersion (strategySession ?S))
                     < getAlternativeVersionId ((undo ^^ j) (textModelN (strategySession ?S))) \<and>
                   canUndo ((undo ^^ j) (textModelN (strategySession ?S)))"
    and e: "\<not> ((case textModelNSnapshotAltVersion (strategySession ?S) of
                       Some snapshot \<Rightarrow> snapshot
                     | None \<Rightarrow> textModelNAltVersion (strategySession ?S))
                  < getAlternativeVersionId ((undo ^^ k) (textModelN (strategySession ?S))) \<and>
               canUndo ((undo ^^ k) (textModelN (strategySession ?S))))"
    by blast
  have "\<not> 2 < k"
  proof
    assume "2 < k"
    with b show False by (auto simp: exSession_def exModel_def newEditStrategy_def isDisposed_def
        getAlternativeVersionId_def canUndo_def undo_def
        eval_nat_numeral dest!: spec[of _ 2])
  qed
  moreover have "k \<noteq> 0"
  proof
    assume "k = 0"
    with e show False by (simp add: exSession_def exModel_def newEditStrategy_def isDisposed_def
        getAlternativeVersionId_def canUndo_def undo_def)
  qed
  moreover have "k \<noteq> 1"
  proof
    assume "k = 1"
    with e show False by (simp add: exSession_def exModel_def newEditStrategy_def isDisposed_def
        getAlternativeVersionId_def canUndo_def undo_def)
  qed
  ultimately have "k = 2" by arith
  with c have "cancel ?S = ?S\<lparr>strategySession :=
           (strategySession ?S)\<lparr>textModelN := (undo ^^ 2) (textModelN (strategySession ?S))\<rparr>\<rparr>"
    by simp
  then show ?thesis using nd by (simp add: exSession_def exModel_def newEditStrategy_def isDisposed_def
        getAlternativeVersionId_def canUndo_def undo_def
        eval_nat_numeral)
qed

text \<open>
  With baseline 1 and snapshot 3, the earlier of the two markers is 1. \<^verbatim>\<open>cancel\<close> stops
  at version 3, above it, although the document could undo further.
\<close>

theorem cancel_stops_at_snapshot_counterexample:
  "min (textModelNAltVersion exSession) 3
     < getAlternativeVersionId (textModelN (strategySession (cancel (newEditStrategy exSession)))) \<and>
   canUndo (textModelN (strategySession (cancel (newEditStrategy exSession)))) \<and>
   textModelNSnapshotAltVersion exSession = Some 3 \<and>
   \<not> isDisposed (textModelN exSession)"
  by (simp add: cancel_def Let_def targetAltVersion_def cancelLoop.simps
        exSession_def exModel_def newEditStrategy_def isDisposed_def
        getAlternativeVersionId_def canUndo_def undo_def)

text \<open>
  C7. When the document's alternative version id is at or below the target marker that
  \<^verbatim>\<open>cancel\<close> computes (the baseline marker, when the session has no snapshot), \<^verbatim>\<open>cancel\<close>
  changes nothing; and \<^verbatim>\<open>cancel\<close> after \<^verbatim>\<open>cancel\<close> changes nothing.
\<close>

theorem cancel_idempotent:
  "(getAlternativeVersionId (textModelN (strategySession this))
      \<le> targetAltVersion (strategySession this) \<longrightarrow> cancel this = this) \<and>
   (textModelNSnapshotAltVersion (strategySession this) = None \<longrightarrow>
      targetAltVersion (strategySession this) = textModelNAltVersion (strategySession this)) \<and>
   cancel (cancel this) = cancel this"
proof -
  let ?s = "strategySession this"
  let ?m = "textModelN ?s"
  have a: "getAlternativeVersionId ?m \<le> targetAltVersion ?s \<longrightarrow> cancel this = this"
    by (auto simp: cancel_def Let_def cancelLoop_done)
  have t: "textModelNSnapshotAltVersion ?s = None \<longrightarrow>
      targetAltVersion ?s = textModelNAltVersion ?s"
    by (simp add: targetAltVersion_def)
  have b: "cancel (cancel this) = cancel this"
  proof (cases "isDisposed ?m")
    case True
    then show ?thesis by (simp add: cancel_def Let_def)
  next
    case False
    have "cancelLoop (targetAltVersion ?s) (cancelLoop (targetAltVersion ?s) ?m) =
        cancelLoop (targetAltVersion ?s) ?m"
      by (rule cancelLoop_done[OF cancelLoop_stops])
    with False show ?thesis
      by (simp add: cancel_def Let_def isDisposed_def cancelLoop_disposed)
  qed
  from a t b show ?thesis by blast
qed

text \<open>A document at the baseline that could still undo: \<^verbatim>\<open>cancel\<close> leaves it alone.\<close>

theorem cancel_idempotent_witness:
  "getAlternativeVersionId (textModelN (strategySession (newEditStrategy exSessionAtBaseline)))
     \<le> targetAltVersion (strategySession (newEditStrategy exSessionAtBaseline)) \<and>
   textModelNSnapshotAltVersion (strategySession (newEditStrategy exSessionAtBaseline)) = None \<and>
   canUndo (textModelN (strategySession (newEditStrategy exSessionAtBaseline))) \<and>
   cancel (newEditStrategy exSessionAtBaseline) = newEditStrategy exSessionAtBaseline \<and>
   cancel (cancel (newEditStrategy exSession)) = cancel (newEditStrategy exSession)"
  using cancel_idempotent[of "newEditStrategy exSessionAtBaseline"]
    cancel_idempotent[of "newEditStrategy exSession"]
  by (simp add: exSessionAtBaseline_def newEditStrategy_def getAlternativeVersionId_def
      targetAltVersion_def canUndo_def)

section \<open>Batches that change nothing\<close>

lemma controller_makeChanges_atomic:
  assumes "activeSession c = Some s" and "strategy c = Some strat"
    and "editorWorker svc batch \<noteq> Some []"
  shows "controller_makeChanges svc c batch None =
     (Returned,
      c\<lparr>strategy := Some (strat\<lparr>editCount := editCount strat + 1\<rparr>),
        callLog := callLog c @
          [TrackEdits (map asEditOperation
              (case editorWorker svc batch of Some m \<Rightarrow> m | None \<Rightarrow> batch))] @
          (if editCount strat = 0 then [PushUndoStop] else []) @
          [ExecuteEdits ''inline-chat-live''
             (map asEditOperation (case editorWorker svc batch of Some m \<Rightarrow> m | None \<Rightarrow> batch))
             cursorStateComputerAndInlineDiffCollection]\<rparr>)"
  using assms
  by (simp add: controller_makeChanges_def makeChanges_def pushUndoStopBeforeFirstEdit_def
      emit_def Let_def)

text \<open>
  C10. When the editor worker answers a batch with the empty list, \<^verbatim>\<open>_makeChanges\<close>
  leaves the controller as it was: no call on the editor or the session, no undo stop,
  the strategy's edit count unchanged. It returns normally when the session and the
  strategy are there (otherwise its assertion throws). The undo stop is still to come:
  in a session without edits so far, the next batch that changes something is preceded
  by the one undo stop.
\<close>

theorem makeChanges_nothing_left:
  assumes "editorWorker svc es = Some []"
  shows "snd (controller_makeChanges svc c es opts) = c \<and>
         (fst (controller_makeChanges svc c es opts) = Returned \<longleftrightarrow>
            activeSession c \<noteq> None \<and> strategy c \<noteq> None) \<and>
         (activeSession c \<noteq> None \<and> strategy c = Some strat \<and> editCount strat = 0 \<and>
          editorWorker svc es' \<noteq> Some [] \<longrightarrow>
            (\<exists>ops rest.
               callLog (snd (controller_makeChanges svc
                               (snd (controller_makeChanges svc c es opts)) es' None)) =
                 callLog c @ TrackEdits ops # PushUndoStop # rest \<and>
               PushUndoStop \<notin> set rest))"
proof -
  have a: "snd (controller_makeChanges svc c es opts) = c"
    using assms by (simp add: controller_makeChanges_def split: option.splits)
  have b: "fst (controller_makeChanges svc c es opts) = Returned \<longleftrightarrow>
            activeSession c \<noteq> None \<and> strategy c \<noteq> None"
    using assms by (auto simp: controller_makeChanges_def split: option.splits)
  have d: "activeSession c \<noteq> None \<and> strategy c = Some strat \<and> editCount strat = 0 \<and>
          editorWorker svc es' \<noteq> Some [] \<longrightarrow>
            (\<exists>ops rest.
               callLog (snd (controller_makeChanges svc
                               (snd (controller_makeChanges svc c es opts)) es' None)) =
                 callLog c @ TrackEdits ops # PushUndoStop # rest \<and>
               PushUndoStop \<notin> set rest)"
  proof
    assume h: "activeSession c \<noteq> None \<and> strategy c = Some strat \<and> editCount strat = 0 \<and>
          editorWorker svc es' \<noteq> Some []"
    then obtain s where s: "activeSession c = Some s" by auto
    from h controller_makeChanges_atomic[OF s, of strat svc es']
    show "\<exists>ops rest.
               callLog (snd (controller_makeChanges svc
                               (snd (controller_makeChanges svc c es opts)) es' None)) =
                 callLog c @ TrackEdits ops # PushUndoStop # rest \<and>
               PushUndoStop \<notin> set rest"
      unfolding a by simp
  qed
  from a b d show ?thesis by blast
qed

text \<open>
  A paced batch that changes nothing leaves the controller alone, and a batch of two
  edits after it gets the undo stop.
\<close>

theorem makeChanges_nothing_left_witness:
  "editorWorker exServicesNoChange [exTextEdit] = Some [] \<and>
   controller_makeChanges exServicesNoChange exController [exTextEdit] (Some exOpts) =
     (Returned, exController) \<and>
   callLog (snd (controller_makeChanges exServicesNoChange
                   (snd (controller_makeChanges exServicesNoChange exController [exTextEdit]
                           (Some exOpts)))
                   [exTextEdit, exTextEdit] None)) =
     [TrackEdits [asEditOperation exTextEdit, asEditOperation exTextEdit], PushUndoStop,
      ExecuteEdits ''inline-chat-live'' [asEditOperation exTextEdit, asEditOperation exTextEdit]
        cursorStateComputerAndInlineDiffCollection]"
proof -
  have a: "editorWorker exServicesNoChange [exTextEdit] = Some []"
    by (simp add: exServicesNoChange_def)
  from makeChanges_nothing_left[OF a, of exController "Some exOpts"]
  have s: "snd (controller_makeChanges exServicesNoChange exController [exTextEdit]
                  (Some exOpts)) = exController"
    and f: "fst (controller_makeChanges exServicesNoChange exController [exTextEdit]
                  (Some exOpts)) = Returned"
    by (simp_all add: exController_def)
  from s f
  have r: "controller_makeChanges exServicesNoChange exController [exTextEdit] (Some exOpts) =
      (Returned, exController)"
    by (simp add: prod_eq_iff)
  show ?thesis unfolding r using a
    by (simp add: exServicesNoChange_def exController_def newEditStrategy_def
        controller_makeChanges_def makeChanges_def pushUndoStopBeforeFirstEdit_def
        emit_def Let_def)
qed

section \<open>Progress\<close>

lemma onProgress_state:
  assumes "live rs" "\<not> requestCancelled rs"
  shows "snd (snd (onProgress data elapsed (c, rs))) =
     (case dataEdits data of
        None \<Rightarrow> rs
      | Some es \<Rightarrow>
          if es = [] then rs
          else rs\<lparr>progressEdits := progressEdits rs @ [es], samples := samples rs @ [elapsed],
                  queued := queued rs @
                    [\<lparr>taskEdits = es,
                      taskInstant = (dataEditsShouldBeInstant data = Some True)\<rparr>]\<rparr>)"
  using assms by (simp add: onProgress_def Let_def split: option.splits)

lemma runQueued_state:
  "snd (runQueued svc (c, rs)) = rs\<lparr>queued := tl (queued rs)\<rparr>"
  by (simp add: runQueued_def split: list.splits)

lemma received_Cons: "received (ev # evs) = received [ev] @ received evs"
  by (cases ev) (auto split: option.splits)

lemma onProgress_received:
  assumes "live rs" "\<not> requestCancelled rs"
  shows "live (snd (snd (onProgress data elapsed (c, rs)))) \<and>
         \<not> requestCancelled (snd (snd (onProgress data elapsed (c, rs)))) \<and>
         progressEdits (snd (snd (onProgress data elapsed (c, rs)))) =
           progressEdits rs @ map fst (received [Report data elapsed]) \<and>
         samples (snd (snd (onProgress data elapsed (c, rs)))) =
           samples rs @ map (\<lambda>r. snd (snd r)) (received [Report data elapsed])"
  unfolding onProgress_state[OF assms] using assms by (simp split: option.splits)

text \<open>
  After a script the batches received are those of its items with edits, and the
  average has been updated with the elapsed time read at each of them.
\<close>

lemma script_state:
  "live rs \<Longrightarrow> \<not> requestCancelled rs \<Longrightarrow>
     live (snd (runScript svc evs (c, rs))) \<and>
     \<not> requestCancelled (snd (runScript svc evs (c, rs))) \<and>
     progressEdits (snd (runScript svc evs (c, rs))) = progressEdits rs @ map fst (received evs) \<and>
     samples (snd (runScript svc evs (c, rs))) =
       samples rs @ map (\<lambda>r. snd (snd r)) (received evs)"
proof (induction evs arbitrary: c rs)
  case Nil
  then show ?case by simp
next
  case (Cons ev evs)
  show ?case
  proof (cases ev)
    case (Report data elapsed)
    obtain o1 c1 rs1 where s1: "onProgress data elapsed (c, rs) = (o1, c1, rs1)"
      by (cases "onProgress data elapsed (c, rs)")
    from onProgress_received[OF Cons.prems, of data elapsed c]
    have l: "live rs1" "\<not> requestCancelled rs1"
      and p: "progressEdits rs1 = progressEdits rs @ map fst (received [ev])"
      and q: "samples rs1 = samples rs @ map (\<lambda>r. snd (snd r)) (received [ev])"
      unfolding Report by (simp_all add: s1)
    have run: "runScript svc (ev # evs) (c, rs) = runScript svc evs (c1, rs1)"
      by (simp add: Report s1)
    from Cons.IH[OF l, of c1] show ?thesis
      unfolding run received_Cons[of ev evs] by (simp add: p q)
  next
    case RunQueued
    obtain c1 rs1 where s1: "runQueued svc (c, rs) = (c1, rs1)"
      by (cases "runQueued svc (c, rs)")
    from runQueued_state[of svc c rs] have rs1: "rs1 = rs\<lparr>queued := tl (queued rs)\<rparr>"
      by (simp add: s1)
    have l: "live rs1" "\<not> requestCancelled rs1" using Cons.prems by (simp_all add: rs1)
    have run: "runScript svc (ev # evs) (c, rs) = runScript svc evs (c1, rs1)"
      by (simp add: RunQueued s1)
    from Cons.IH[OF l, of c1] show ?thesis
      unfolding run by (simp add: rs1 RunQueued)
  qed
qed

lemma requestInv_onProgress:
  assumes "requestInv rs"
  shows "requestInv (snd (snd (onProgress data elapsed (c, rs))))"
proof -
  from assms have l: "live rs" "\<not> requestCancelled rs" by (auto simp: requestInv_def)
  show ?thesis unfolding onProgress_state[OF l]
    using assms by (auto simp: requestInv_def split: option.splits)
qed

lemma requestInv_runQueued:
  assumes "requestInv rs"
  shows "requestInv (snd (runQueued svc (c, rs)))"
proof (cases "queued rs")
  case Nil
  with assms show ?thesis by (simp add: runQueued_state requestInv_def)
next
  case (Cons t ts)
  from assms Cons have le: "Suc (length ts) \<le> length (progressEdits rs)"
    and m: "map taskEdits (t # ts) =
      drop (length (progressEdits rs) - Suc (length ts)) (progressEdits rs)"
    by (auto simp: requestInv_def)
  from le have eq: "length (progressEdits rs) - length ts =
      Suc (length (progressEdits rs) - Suc (length ts))"
    by simp
  have "map taskEdits ts = tl (map taskEdits (t # ts))" by simp
  also have "\<dots> = drop (length (progressEdits rs) - length ts) (progressEdits rs)"
    unfolding m eq by (simp add: drop_Suc tl_drop)
  finally show ?thesis using assms Cons le by (simp add: runQueued_state requestInv_def)
qed

lemma requestInv_script:
  "requestInv rs \<Longrightarrow> requestInv (snd (runScript svc evs (c, rs)))"
proof (induction evs arbitrary: c rs)
  case Nil
  then show ?case by simp
next
  case (Cons ev evs)
  show ?case
  proof (cases ev)
    case (Report data elapsed)
    obtain o1 c1 rs1 where s1: "onProgress data elapsed (c, rs) = (o1, c1, rs1)"
      by (cases "onProgress data elapsed (c, rs)")
    with requestInv_onProgress[OF Cons.prems, of data elapsed c] have "requestInv rs1" by simp
    from Cons.IH[OF this, of c1] show ?thesis unfolding Report using s1 by simp
  next
    case RunQueued
    obtain c1 rs1 where s1: "runQueued svc (c, rs) = (c1, rs1)"
      by (cases "runQueued svc (c, rs)")
    with requestInv_runQueued[OF Cons.prems, of svc c] have "requestInv rs1" by simp
    from Cons.IH[OF this, of c1] show ?thesis unfolding RunQueued using s1 by simp
  qed
qed

lemma requestInv_new: "requestInv newRequest"
  by (simp add: requestInv_def newRequest_def)

text \<open>
  C4, as the code has it. The handler updates the average with a batch's elapsed time
  before it queues the batch, and the batch's task reads the average when it starts.
  So when a task is about to start, after any script: the average has been updated
  with the elapsed times of all batches received so far; the task's batch is one of
  them (number \<open>length (received evs) - Suc (length ts)\<close>, counted from 0); and, unless
  the batch is instant, the task's pacing duration is the value of the average over
  all those samples, its own batch's sample included. There is no lag of one batch.
\<close>

theorem pacing_includes_own_sample:
  assumes "runScript svc evs (c, newRequest) = (c', rs)" and "queued rs = t # ts"
  shows "samples rs = map (\<lambda>r. snd (snd r)) (received evs) \<and>
         progressEdits rs = map fst (received evs) \<and>
         length ts < length (received evs) \<and>
         taskEdits t = fst (received evs ! (length (received evs) - Suc (length ts))) \<and>
         taskOpts svc rs t =
           (if taskInstant t then None
            else Some \<lparr>duration = movingAverage svc (map (\<lambda>r. snd (snd r)) (received evs)),
                       token = CancellationToken False\<rparr>)"
proof -
  have rs: "rs = snd (runScript svc evs (c, newRequest))" using assms(1) by simp
  from script_state[of newRequest svc evs c]
  have st: "live rs" "\<not> requestCancelled rs" "progressEdits rs = map fst (received evs)"
    "samples rs = map (\<lambda>r. snd (snd r)) (received evs)"
    by (simp_all add: newRequest_def rs)
  from requestInv_script[OF requestInv_new, of svc evs c] have inv: "requestInv rs"
    by (simp add: rs)
  from inv assms(2) have le: "Suc (length ts) \<le> length (progressEdits rs)"
    and m: "map taskEdits (t # ts) =
      drop (length (progressEdits rs) - Suc (length ts)) (progressEdits rs)"
    by (auto simp: requestInv_def)
  from le st(3) have lt: "length ts < length (received evs)" by simp
  have "taskEdits t = hd (map taskEdits (t # ts))" by simp
  also have "\<dots> = progressEdits rs ! (length (progressEdits rs) - Suc (length ts))"
    unfolding m using le by (simp add: hd_drop_conv_nth)
  also have "\<dots> = fst (received evs ! (length (received evs) - Suc (length ts)))"
    using lt by (simp add: st(3))
  finally have te: "taskEdits t = fst (received evs ! (length (received evs) - Suc (length ts)))" .
  show ?thesis using st lt te by (simp add: taskOpts_def)
qed

text \<open>
  Two batches arrive, 100 and 300 after the one before, and no task has started. The
  first batch's task is then paced with the mean 200 of both samples.
\<close>

theorem pacing_includes_own_sample_witness:
  "queued (snd (runScript exServices [Report exItem 100, Report exItem 300]
                  (exController, newRequest))) =
     [\<lparr>taskEdits = [exTextEdit], taskInstant = False\<rparr>,
      \<lparr>taskEdits = [exTextEdit], taskInstant = False\<rparr>] \<and>
   taskOpts exServices
     (snd (runScript exServices [Report exItem 100, Report exItem 300]
             (exController, newRequest)))
     \<lparr>taskEdits = [exTextEdit], taskInstant = False\<rparr> =
     Some \<lparr>duration = 200, token = CancellationToken False\<rparr>"
proof -
  let ?st = "runScript exServices [Report exItem 100, Report exItem 300]
               (exController, newRequest)"
  have q: "queued (snd ?st) =
      \<lparr>taskEdits = [exTextEdit], taskInstant = False\<rparr> #
      [\<lparr>taskEdits = [exTextEdit], taskInstant = False\<rparr>]"
    by (simp add: exItem_def newRequest_def onProgress_def Let_def)
  have p: "?st = (fst ?st, snd ?st)" by simp
  from pacing_includes_own_sample[OF p q] q show ?thesis
    by (simp add: exItem_def exServices_def runningMean_def movingAverageUpdate_def)
qed

text \<open>
  One batch arrives and its task runs. With 100 elapsed at its arrival it is revealed
  at 10 words a second, with 200 elapsed at 5: the sample taken at the arrival of the
  first batch sizes the pacing of that same batch.
\<close>

theorem own_sample_paces_batch_counterexample:
  "callLog (fst (runScript exServices [Report exItem 100, RunQueued]
                   (exController, newRequest))) =
     [TrackEdits [asEditOperation exTextEdit], PushUndoStop,
      PerformAsyncTextEdit (asEditOperation exTextEdit) (Finite 10) (CancellationToken False)] \<and>
   callLog (fst (runScript exServices [Report exItem 200, RunQueued]
                   (exController, newRequest))) =
     [TrackEdits [asEditOperation exTextEdit], PushUndoStop,
      PerformAsyncTextEdit (asEditOperation exTextEdit) (Finite 5) (CancellationToken False)]"
  by (simp add: exController_def exServices_def exItem_def newRequest_def newEditStrategy_def
      onProgress_def runQueued_def taskOpts_def controller_makeChanges_def
      makeProgressiveChanges_def pushUndoStopBeforeFirstEdit_def progressiveEdit_def
      emit_def Let_def runningMean_def movingAverageUpdate_def
      one_word_in_100 one_word_in_200)

section \<open>The speed of a progressive edit\<close>

text \<open>What \<^verbatim>\<open>_makeChanges\<close> does with a batch and pacing options.\<close>

lemma controller_makeChanges_paced:
  assumes "activeSession c = Some s" and "strategy c = Some strat"
    and "editorWorker svc batch \<noteq> Some []"
  shows "callLog (snd (controller_makeChanges svc c batch (Some opts))) =
     callLog c @ [TrackEdits (map asEditOperation batch)] @
     (if editCount strat = 0 then [PushUndoStop] else []) @
     map (\<lambda>edit. PerformAsyncTextEdit edit
            (jsDivide
               (Finite (of_nat (wordCounter svc (case opText edit of None \<Rightarrow> [] | Some x \<Rightarrow> x))))
               (jsDivide (Finite (duration opts)) (Finite 1000)))
            (token opts))
       (map asEditOperation batch)"
  using assms
  by (simp add: controller_makeChanges_def makeProgressiveChanges_def
      pushUndoStopBeforeFirstEdit_def progressiveEdit_def emit_def Let_def)

text \<open>
  C8. A batch that came as progress and is not instant is revealed, edit by edit, at the
  speed: word count of the edit's text (of the empty text, when it has none) divided
  by the duration in seconds, where the duration is the value of the rolling average
  over the elapsed times read at the arrival of every batch received so far, divided
  by 1000; both divisions are JavaScript's. \<^verbatim>\<open>makeProgressiveChanges\<close> computes the speed
  this way from any duration: nothing bounds the duration or the speed, and a duration
  of 0 gives an infinite speed (NaN for no words).
\<close>

theorem paced_with_rolling_average:
  assumes "runScript svc evs (c0, newRequest) = (c, rs)" and "queued rs = t # ts"
    and "\<not> taskInstant t" and "activeSession c = Some s" and "strategy c = Some strat"
    and "editorWorker svc (taskEdits t) \<noteq> Some []"
  shows "callLog (fst (runQueued svc (c, rs))) =
     callLog c @ [TrackEdits (map asEditOperation (taskEdits t))] @
     (if editCount strat = 0 then [PushUndoStop] else []) @
     map (\<lambda>edit. PerformAsyncTextEdit edit
            (jsDivide
               (Finite (of_nat (wordCounter svc (case opText edit of None \<Rightarrow> [] | Some x \<Rightarrow> x))))
               (jsDivide
                  (Finite (movingAverage svc (map (\<lambda>r. snd (snd r)) (received evs))))
                  (Finite 1000)))
            (CancellationToken False))
       (map asEditOperation (taskEdits t)) \<and>
     snd (makeProgressiveChanges countWords this es opts) =
       (if editCount this = 0 then [PushUndoStop] else []) @
       map (\<lambda>edit. PerformAsyncTextEdit edit
              (jsDivide
                 (Finite (of_nat (countWords (case opText edit of None \<Rightarrow> [] | Some x \<Rightarrow> x))))
                 (jsDivide (Finite (duration opts)) (Finite 1000)))
              (token opts)) es \<and>
     jsDivide (Finite (of_nat n)) (jsDivide (Finite 0) (Finite 1000)) =
       (if n = 0 then NaN else PosInfinity)"
proof -
  have rs: "rs = snd (runScript svc evs (c0, newRequest))" using assms(1) by simp
  from script_state[of newRequest svc evs c0]
  have st: "\<not> requestCancelled rs" "samples rs = map (\<lambda>r. snd (snd r)) (received evs)"
    by (simp_all add: newRequest_def rs)
  have o: "taskOpts svc rs t =
      Some \<lparr>duration = movingAverage svc (map (\<lambda>r. snd (snd r)) (received evs)),
            token = CancellationToken False\<rparr>"
    using assms(3) st by (simp add: taskOpts_def)
  have q: "fst (runQueued svc (c, rs)) =
      snd (controller_makeChanges svc c (taskEdits t) (taskOpts svc rs t))"
    using assms(2) by (simp add: runQueued_def)
  have a: "callLog (fst (runQueued svc (c, rs))) =
     callLog c @ [TrackEdits (map asEditOperation (taskEdits t))] @
     (if editCount strat = 0 then [PushUndoStop] else []) @
     map (\<lambda>edit. PerformAsyncTextEdit edit
            (jsDivide
               (Finite (of_nat (wordCounter svc (case opText edit of None \<Rightarrow> [] | Some x \<Rightarrow> x))))
               (jsDivide
                  (Finite (movingAverage svc (map (\<lambda>r. snd (snd r)) (received evs))))
                  (Finite 1000)))
            (CancellationToken False))
       (map asEditOperation (taskEdits t))"
    unfolding q o
    using controller_makeChanges_paced[OF assms(4) assms(5) assms(6)] by simp
  have b: "snd (makeProgressiveChanges countWords this es opts) =
       (if editCount this = 0 then [PushUndoStop] else []) @
       map (\<lambda>edit. PerformAsyncTextEdit edit
              (jsDivide
                 (Finite (of_nat (countWords (case opText edit of None \<Rightarrow> [] | Some x \<Rightarrow> x))))
                 (jsDivide (Finite (duration opts)) (Finite 1000)))
              (token opts)) es"
    by (simp add: makeProgressiveChanges_def pushUndoStopBeforeFirstEdit_def progressiveEdit_def
        Let_def)
  from a b words_in_no_time[of n] show ?thesis by blast
qed

text \<open>
  One batch of one word arrives after 300 milliseconds: the average is 300, and the
  edit is revealed at 1 / (300 / 1000) words a second in doubles, 3.3333333333333335.
\<close>

theorem paced_with_rolling_average_witness:
  "queued (snd (runScript exServices [Report exItem 300] (exController, newRequest))) =
     [\<lparr>taskEdits = [exTextEdit], taskInstant = False\<rparr>] \<and>
   callLog (fst (runQueued exServices
                   (runScript exServices [Report exItem 300] (exController, newRequest)))) =
     [TrackEdits [asEditOperation exTextEdit], PushUndoStop,
      PerformAsyncTextEdit (asEditOperation exTextEdit)
        (Finite (7505999378950827 / 2251799813685248)) (CancellationToken False)]"
proof -
  let ?st = "runScript exServices [Report exItem 300] (exController, newRequest)"
  have st: "?st = (exController,
      newRequest\<lparr>progressEdits := [[exTextEdit]], samples := [300],
        queued := [\<lparr>taskEdits = [exTextEdit], taskInstant = False\<rparr>]\<rparr>)"
    by (simp add: exItem_def newRequest_def onProgress_def Let_def)
  have q: "queued (newRequest\<lparr>progressEdits := [[exTextEdit]], samples := [300],
        queued := [\<lparr>taskEdits = [exTextEdit], taskInstant = False\<rparr>]\<rparr>) =
      \<lparr>taskEdits = [exTextEdit], taskInstant = False\<rparr> # []"
    by simp
  have i: "\<not> taskInstant \<lparr>taskEdits = [exTextEdit], taskInstant = False\<rparr>" by simp
  have a: "activeSession exController = Some exSession" by (simp add: exController_def)
  have b: "strategy exController = Some (newEditStrategy exSession)"
    by (simp add: exController_def)
  have w: "editorWorker exServices (taskEdits \<lparr>taskEdits = [exTextEdit], taskInstant = False\<rparr>)
      \<noteq> Some []"
    by (simp add: exServices_def)
  from paced_with_rolling_average[OF st q i a b w,
      of "\<lambda>t. 1" "newEditStrategy exSession" "[]" exOpts 0]
  have "callLog (fst (runQueued exServices
                   (exController,
                    newRequest\<lparr>progressEdits := [[exTextEdit]], samples := [300],
                      queued := [\<lparr>taskEdits = [exTextEdit], taskInstant = False\<rparr>]\<rparr>))) =
     [TrackEdits [asEditOperation exTextEdit], PushUndoStop,
      PerformAsyncTextEdit (asEditOperation exTextEdit)
        (Finite (7505999378950827 / 2251799813685248)) (CancellationToken False)]"
    by (simp add: exServices_def exItem_def newEditStrategy_def runningMean_def
        movingAverageUpdate_def one_word_in_300 exController_def)
  then show ?thesis unfolding st by simp
qed

section \<open>The end of a request\<close>

declare applyRemaining.simps [simp del]
declare drainQueue.simps [simp del]

text \<open>
  C9, at a request whose provider reports a message and then a batch, and resolves with
  a reply before the batch's progress item is handled. The queue is empty when its
  size is tested, so it is not awaited; the batch is handled during
  \<^verbatim>\<open>await progress.drain()\<close> and its task queued, and nothing awaits the queue after
  that. \<^verbatim>\<open>acceptInput\<close> applies the one batch of the reply that did not come as progress,
  resets the flags and returns, while the task of the batch that came as progress is
  still in the queue.
\<close>

theorem late_batch_not_awaited:
  "fst (acceptInput exServices True [Report exMessageItem 50] (Resolved (Some [exTextEdit]))
          [Report exItem 100] [] exController) = Returned \<and>
   callLog (fst (snd (acceptInput exServices True [Report exMessageItem 50]
                        (Resolved (Some [exTextEdit])) [Report exItem 100] [] exController))) =
     [AddInput ''fix bug'', CtxHasActiveRequestSet True, UpdateProgress True,
      UpdateToolbar False, UpdateInfo ''Thinking'',
      TrackEdits [asEditOperation exTextEdit], PushUndoStop,
      ExecuteEdits ''inline-chat-live'' [asEditOperation exTextEdit]
        cursorStateComputerAndInlineDiffCollection,
      CtxHasActiveRequestSet False, UpdateProgress False, UpdateInfo [], UpdateToolbar True] \<and>
   snd (snd (acceptInput exServices True [Report exMessageItem 50]
               (Resolved (Some [exTextEdit])) [Report exItem 100] [] exController)) =
     [\<lparr>taskEdits = [exTextEdit], taskInstant = False\<rparr>]"
  by (simp add: acceptInput_def exController_def exServices_def exItem_def exMessageItem_def
      newRequest_def newEditStrategy_def onProgress_def controller_makeChanges_def
      makeChanges_def pushUndoStopBeforeFirstEdit_def emit_def Let_def
      applyRemaining.simps)

section \<open>A provider that fails\<close>

text \<open>
  C5, at a provider whose promise rejects before any progress. \<^verbatim>\<open>acceptInput\<close> has set
  the context key and the widget's progress, and the rejection leaves it through the
  \<^verbatim>\<open>await\<close>: it throws, and neither \<^verbatim>\<open>CtxHasActiveRequestSet False\<close> nor
  \<^verbatim>\<open>UpdateProgress False\<close> is among its calls.
\<close>

theorem rejected_keeps_flags:
  "acceptInput exServices True [] Rejected [] [] exController =
     (Thrown ProviderFailed,
      exController\<lparr>callLog :=
        [AddInput ''fix bug'', CtxHasActiveRequestSet True, UpdateProgress True]\<rparr>,
      [])"
  by (simp add: acceptInput_def exController_def emit_def newRequest_def Let_def)

end
